theory Spec2Isabelle
  imports Complex_Main "HOL-Library.Word"
begin

unbundle bit_operations_syntax

section \<open>The sine-wave generator of SineWave.ino\<close>

text \<open>
  The sketch drives Timer/Counter2 of an ATmega328P in Fast-PWM mode. Two macros fix a
  build: \<open>PRESCALER\<close> and \<open>SAMPLE_COUNT\<close>. The preprocessor selects one of three
  precalculated tables and one of seven prescaler settings, or stops with \<open>#error\<close>.
  At run time \<open>setup\<close> programs the timer once, \<open>loop\<close> is empty, and the overflow
  interrupt \<open>ISR(TIMER2_OVF_vect)\<close> copies the next table entry into \<open>OCR2A\<close>.
\<close>

type_synonym uint8_t = "8 word"
type_synonym uint16_t = "16 word"

subsection \<open>The precalculated tables\<close>

text \<open>
  The brace initialisers are kept as the integer literals of the source, row by row;
  the array itself has element type \<open>uint8_t\<close>, so every literal is converted.
\<close>

definition SINE_FULL_WAVE_256_init :: "int list" where
  "SINE_FULL_WAVE_256_init =
    [
     128, 131, 134, 137, 140, 143, 146, 149, 152, 155, 158, 162, 165, 167,
     170, 173, 176, 179, 182, 185, 188, 190, 193, 196, 198, 201, 203, 206,
     208, 211, 213, 215, 218, 220, 222, 224, 226, 228, 230, 232, 234, 235,
     237, 238, 240, 241, 243, 244, 245, 246, 248, 249, 250, 250, 251, 252,
     253, 253, 254, 254, 254, 255, 255, 255, 255, 255, 255, 255, 254, 254,
     254, 253, 253, 252, 251, 250, 250, 249, 248, 246, 245, 244, 243, 241,
     240, 238, 237, 235, 234, 232, 230, 228, 226, 224, 222, 220, 218, 215,
     213, 211, 208, 206, 203, 201, 198, 196, 193, 190, 188, 185, 182, 179,
     176, 173, 170, 167, 165, 162, 158, 155, 152, 149, 146, 143, 140, 137,
     134, 131, 128, 124, 121, 118, 115, 112, 109, 106, 103, 100,  97,  93,
      90,  88,  85,  82,  79,  76,  73,  70,  67,  65,  62,  59,  57,  54,
      52,  49,  47,  44,  42,  40,  37,  35,  33,  31,  29,  27,  25,  23,
      21,  20,  18,  17,  15,  14,  12,  11,  10,   9,   7,   6,   5,   5,
       4,   3,   2,   2,   1,   1,   1,   0,   0,   0,   0,   0,   0,   0,
       1,   1,   1,   2,   2,   3,   4,   5,   5,   6,   7,   9,  10,  11,
      12,  14,  15,  17,  18,  20,  21,  23,  25,  27,  29,  31,  33,  35,
      37,  40,  42,  44,  47,  49,  52,  54,  57,  59,  62,  65,  67,  70,
      73,  76,  79,  82,  85,  88,  90,  93,  97, 100, 103, 106, 109, 112,
     115, 118, 121, 124
    ]"

definition SINE_FULL_WAVE_512_init :: "int list" where
  "SINE_FULL_WAVE_512_init =
    [
     128, 129, 131, 132, 134, 135, 137, 138, 140, 142, 143, 145, 146, 148,
     149, 151, 152, 154, 155, 157, 158, 160, 162, 163, 165, 166, 167, 169,
     170, 172, 173, 175, 176, 178, 179, 181, 182, 183, 185, 186, 188, 189,
     190, 192, 193, 194, 196, 197, 198, 200, 201, 202, 203, 205, 206, 207,
     208, 210, 211, 212, 213, 214, 215, 217, 218, 219, 220, 221, 222, 223,
     224, 225, 226, 227, 228, 229, 230, 231, 232, 233, 234, 234, 235, 236,
     237, 238, 238, 239, 240, 241, 241, 242, 243, 243, 244, 245, 245, 246,
     246, 247, 248, 248, 249, 249, 250, 250, 250, 251, 251, 252, 252, 252,
     253, 253, 253, 253, 254, 254, 254, 254, 254, 255, 255, 255, 255, 255,
     255, 255, 255, 255, 255, 255, 255, 255, 255, 255, 254, 254, 254, 254,
     254, 253, 253, 253, 253, 252, 252, 252, 251, 251, 250, 250, 250, 249,
     249, 248, 248, 247, 246, 246, 245, 245, 244, 243, 243, 242, 241, 241,
     240, 239, 238, 238, 237, 236, 235, 234, 234, 233, 232, 231, 230, 229,
     228, 227, 226, 225, 224, 223, 222, 221, 220, 219, 218, 217, 215, 214,
     213, 212, 211, 210, 208, 207, 206, 205, 203, 202, 201, 200, 198, 197,
     196, 194, 193, 192, 190, 189, 188, 186, 185, 183, 182, 181, 179, 178,
     176, 175, 173, 172, 170, 169, 167, 166, 165, 163, 162, 160, 158, 157,
     155, 154, 152, 151, 149, 148, 146, 145, 143, 142, 140, 138, 137, 135,
     134, 132, 131, 129, 128, 126, 124, 123, 121, 120, 118, 117, 115, 113,
     112, 110, 109, 107, 106, 104, 103, 101, 100,  98,  97,  95,  93,  92,
      90,  89,  88,  86,  85,  83,  82,  80,  79,  77,  76,  74,  73,  72,
      70,  69,  67,  66,  65,  63,  62,  61,  59,  58,  57,  55,  54,  53,
      52,  50,  49,  48,  47,  45,  44,  43,  42,  41,  40,  38,  37,  36,
      35,  34,  33,  32,  31,  30,  29,  28,  27,  26,  25,  24,  23,  22,
      21,  21,  20,  19,  18,  17,  17,  16,  15,  14,  14,  13,  12,  12,
      11,  10,  10,   9,   9,   8,   7,   7,   6,   6,   5,   5,   5,   4,
       4,   3,   3,   3,   2,   2,   2,   2,   1,   1,   1,   1,   1,   0,
       0,   0,   0,   0,   0,   0,   0,   0,   0,   0,   0,   0,   0,   0,
       1,   1,   1,   1,   1,   2,   2,   2,   2,   3,   3,   3,   4,   4,
       5,   5,   5,   6,   6,   7,   7,   8,   9,   9,  10,  10,  11,  12,
      12,  13,  14,  14,  15,  16,  17,  17,  18,  19,  20,  21,  21,  22,
      23,  24,  25,  26,  27,  28,  29,  30,  31,  32,  33,  34,  35,  36,
      37,  38,  40,  41,  42,  43,  44,  45,  47,  48,  49,  50,  52,  53,
      54,  55,  57,  58,  59,  61,  62,  63,  65,  66,  67,  69,  70,  72,
      73,  74,  76,  77,  79,  80,  82,  83,  85,  86,  88,  89,  90,  92,
      93,  95,  97,  98, 100, 101, 103, 104, 106, 107, 109, 110, 112, 113,
     115, 117, 118, 120, 121, 123, 124, 126
    ]"

definition SINE_FULL_WAVE_1024_init :: "int list" where
  "SINE_FULL_WAVE_1024_init =
    [
     128, 128, 129, 130, 131, 131, 132, 133, 134, 135, 135, 136, 137, 138,
     138, 139, 140, 141, 142, 142, 143, 144, 145, 145, 146, 147, 148, 149,
     149, 150, 151, 152, 152, 153, 154, 155, 155, 156, 157, 158, 158, 159,
     160, 161, 162, 162, 163, 164, 165, 165, 166, 167, 167, 168, 169, 170,
     170, 171, 172, 173, 173, 174, 175, 176, 176, 177, 178, 178, 179, 180,
     181, 181, 182, 183, 183, 184, 185, 186, 186, 187, 188, 188, 189, 190,
     190, 191, 192, 192, 193, 194, 194, 195, 196, 196, 197, 198, 198, 199,
     200, 200, 201, 202, 202, 203, 203, 204, 205, 205, 206, 207, 207, 208,
     208, 209, 210, 210, 211, 211, 212, 213, 213, 214, 214, 215, 215, 216,
     217, 217, 218, 218, 219, 219, 220, 220, 221, 221, 222, 222, 223, 224,
     224, 225, 225, 226, 226, 227, 227, 228, 228, 228, 229, 229, 230, 230,
     231, 231, 232, 232, 233, 233, 234, 234, 234, 235, 235, 236, 236, 236,
     237, 237, 238, 238, 238, 239, 239, 240, 240, 240, 241, 241, 241, 242,
     242, 242, 243, 243, 243, 244, 244, 244, 245, 245, 245, 246, 246, 246,
     246, 247, 247, 247, 248, 248, 248, 248, 249, 249, 249, 249, 250, 250,
     250, 250, 250, 251, 251, 251, 251, 251, 252, 252, 252, 252, 252, 252,
     253, 253, 253, 253, 253, 253, 253, 254, 254, 254, 254, 254, 254, 254,
     254, 254, 254, 254, 255, 255, 255, 255, 255, 255, 255, 255, 255, 255,
     255, 255, 255, 255, 255, 255, 255, 255, 255, 255, 255, 255, 255, 255,
     255, 255, 255, 255, 255, 254, 254, 254, 254, 254, 254, 254, 254, 254,
     254, 254, 253, 253, 253, 253, 253, 253, 253, 252, 252, 252, 252, 252,
     252, 251, 251, 251, 251, 251, 250, 250, 250, 250, 250, 249, 249, 249,
     249, 248, 248, 248, 248, 247, 247, 247, 246, 246, 246, 246, 245, 245,
     245, 244, 244, 244, 243, 243, 243, 242, 242, 242, 241, 241, 241, 240,
     240, 240, 239, 239, 238, 238, 238, 237, 237, 236, 236, 236, 235, 235,
     234, 234, 234, 233, 233, 232, 232, 231, 231, 230, 230, 229, 229, 228,
     228, 228, 227, 227, 226, 226, 225, 225, 224, 224, 223, 222, 222, 221,
     221, 220, 220, 219, 219, 218, 218, 217, 217, 216, 215, 215, 214, 214,
     213, 213, 212, 211, 211, 210, 210, 209, 208, 208, 207, 207, 206, 205,
     205, 204, 203, 203, 202, 202, 201, 200, 200, 199, 198, 198, 197, 196,
     196, 195, 194, 194, 193, 192, 192, 191, 190, 190, 189, 188, 188, 187,
     186, 186, 185, 184, 183, 183, 182, 181, 181, 180, 179, 178, 178, 177,
     176, 176, 175, 174, 173, 173, 172, 171, 170, 170, 169, 168, 167, 167,
     166, 165, 165, 164, 163, 162, 162, 161, 160, 159, 158, 158, 157, 156,
     155, 155, 154, 153, 152, 152, 151, 150, 149, 149, 148, 147, 146, 145,
     145, 144, 143, 142, 142, 141, 140, 139, 138, 138, 137, 136, 135, 135,
     134, 133, 132, 131, 131, 130, 129, 128, 128, 127, 126, 125, 124, 124,
     123, 122, 121, 120, 120, 119, 118, 117, 117, 116, 115, 114, 113, 113,
     112, 111, 110, 110, 109, 108, 107, 106, 106, 105, 104, 103, 103, 102,
     101, 100, 100,  99,  98,  97,  97,  96,  95,  94,  93,  93,  92,  91,
      90,  90,  89,  88,  88,  87,  86,  85,  85,  84,  83,  82,  82,  81,
      80,  79,  79,  78,  77,  77,  76,  75,  74,  74,  73,  72,  72,  71,
      70,  69,  69,  68,  67,  67,  66,  65,  65,  64,  63,  63,  62,  61,
      61,  60,  59,  59,  58,  57,  57,  56,  55,  55,  54,  53,  53,  52,
      52,  51,  50,  50,  49,  48,  48,  47,  47,  46,  45,  45,  44,  44,
      43,  42,  42,  41,  41,  40,  40,  39,  38,  38,  37,  37,  36,  36,
      35,  35,  34,  34,  33,  33,  32,  31,  31,  30,  30,  29,  29,  28,
      28,  27,  27,  27,  26,  26,  25,  25,  24,  24,  23,  23,  22,  22,
      21,  21,  21,  20,  20,  19,  19,  19,  18,  18,  17,  17,  17,  16,
      16,  15,  15,  15,  14,  14,  14,  13,  13,  13,  12,  12,  12,  11,
      11,  11,  10,  10,  10,   9,   9,   9,   9,   8,   8,   8,   7,   7,
       7,   7,   6,   6,   6,   6,   5,   5,   5,   5,   5,   4,   4,   4,
       4,   4,   3,   3,   3,   3,   3,   3,   2,   2,   2,   2,   2,   2,
       2,   1,   1,   1,   1,   1,   1,   1,   1,   1,   1,   1,   0,   0,
       0,   0,   0,   0,   0,   0,   0,   0,   0,   0,   0,   0,   0,   0,
       0,   0,   0,   0,   0,   0,   0,   0,   0,   0,   0,   0,   0,   1,
       1,   1,   1,   1,   1,   1,   1,   1,   1,   1,   2,   2,   2,   2,
       2,   2,   2,   3,   3,   3,   3,   3,   3,   4,   4,   4,   4,   4,
       5,   5,   5,   5,   5,   6,   6,   6,   6,   7,   7,   7,   7,   8,
       8,   8,   9,   9,   9,   9,  10,  10,  10,  11,  11,  11,  12,  12,
      12,  13,  13,  13,  14,  14,  14,  15,  15,  15,  16,  16,  17,  17,
      17,  18,  18,  19,  19,  19,  20,  20,  21,  21,  21,  22,  22,  23,
      23,  24,  24,  25,  25,  26,  26,  27,  27,  27,  28,  28,  29,  29,
      30,  30,  31,  31,  32,  33,  33,  34,  34,  35,  35,  36,  36,  37,
      37,  38,  38,  39,  40,  40,  41,  41,  42,  42,  43,  44,  44,  45,
      45,  46,  47,  47,  48,  48,  49,  50,  50,  51,  52,  52,  53,  53,
      54,  55,  55,  56,  57,  57,  58,  59,  59,  60,  61,  61,  62,  63,
      63,  64,  65,  65,  66,  67,  67,  68,  69,  69,  70,  71,  72,  72,
      73,  74,  74,  75,  76,  77,  77,  78,  79,  79,  80,  81,  82,  82,
      83,  84,  85,  85,  86,  87,  88,  88,  89,  90,  90,  91,  92,  93,
      93,  94,  95,  96,  97,  97,  98,  99, 100, 100, 101, 102, 103, 103,
     104, 105, 106, 106, 107, 108, 109, 110, 110, 111, 112, 113, 113, 114,
     115, 116, 117, 117, 118, 119, 120, 120, 121, 122, 123, 124, 124, 125,
     126, 127
    ]"

definition SINE_FULL_WAVE_256 :: "uint8_t list" where
  "SINE_FULL_WAVE_256 = map word_of_int SINE_FULL_WAVE_256_init"

definition SINE_FULL_WAVE_512 :: "uint8_t list" where
  "SINE_FULL_WAVE_512 = map word_of_int SINE_FULL_WAVE_512_init"

definition SINE_FULL_WAVE_1024 :: "uint8_t list" where
  "SINE_FULL_WAVE_1024 = map word_of_int SINE_FULL_WAVE_1024_init"

subsection \<open>Build-time selection\<close>

text \<open>
  The two \<open>#error\<close> directives of the sketch. A build that reaches one of them
  produces no firmware.
\<close>

datatype build_error = Bad_SAMPLE_COUNT | Bad_PRESCALER

text \<open>
  The preprocessor of GCC evaluates the controlling expression of \<open>#if\<close> in 64-bit
  integer arithmetic. An integer constant that does not fit is diagnosed with a warning
  only and cut down to its low 64 bits, and a negated constant wraps around. A comparison
  with \<open>==\<close> therefore sees the macro's value modulo \<open>2 ^ 64\<close>.
\<close>

definition cpp_value :: "int \<Rightarrow> int" where
  "cpp_value v = v mod 2 ^ 64"

text \<open>
  The chain \<open>#if SAMPLE_COUNT == 256 ... #elif SAMPLE_COUNT == 512 ... #elif
  SAMPLE_COUNT == 1024 ... #else #error\<close> around the three array definitions. Its
  argument, like that of the next two definitions, is the value the preprocessor has
  for the macro, that is a \<open>cpp_value\<close>.
\<close>

definition SINE_FULL_WAVE :: "int \<Rightarrow> build_error + uint8_t list" where
  "SINE_FULL_WAVE SAMPLE_COUNT =
     (if SAMPLE_COUNT = 256 then Inr SINE_FULL_WAVE_256
      else if SAMPLE_COUNT = 512 then Inr SINE_FULL_WAVE_512
      else if SAMPLE_COUNT = 1024 then Inr SINE_FULL_WAVE_1024
      else Inl Bad_SAMPLE_COUNT)"

text \<open>
  The chain \<open>#if PRESCALER == 1 ... #elif PRESCALER == 1024 ... #else #error\<close> inside
  \<open>setup\<close>, on the preprocessor's value of \<open>PRESCALER\<close>. Each branch is three macro
  calls on \<open>TCCR2B\<close>, for \<open>CS22\<close>, \<open>CS21\<close> and \<open>CS20\<close> in this order: \<open>True\<close>
  stands for \<open>bitSet\<close>, \<open>False\<close> for \<open>bitClear\<close>.
\<close>

definition PRESCALER_select :: "int \<Rightarrow> build_error + bool \<times> bool \<times> bool" where
  "PRESCALER_select PRESCALER =
     (if PRESCALER = 1 then Inr (False, False, True)
      else if PRESCALER = 8 then Inr (False, True, False)
      else if PRESCALER = 32 then Inr (False, True, True)
      else if PRESCALER = 64 then Inr (True, False, False)
      else if PRESCALER = 128 then Inr (True, False, True)
      else if PRESCALER = 256 then Inr (True, True, False)
      else if PRESCALER = 1024 then Inr (True, True, True)
      else Inl Bad_PRESCALER)"

text \<open>
  What a successful compilation fixes: the table, the mask operand \<open>SAMPLE_COUNT - 1\<close>
  of the interrupt routine and the clock-select operations of \<open>setup\<close>.
\<close>

record firmware =
  fw_SAMPLE_COUNT :: int
  fw_SINE_FULL_WAVE :: "uint8_t list"
  fw_CS :: "bool \<times> bool \<times> bool"

text \<open>
  The translation unit, given the values the preprocessor has for the two macros. It is
  read top to bottom: the table chain comes first, the prescaler chain second.
\<close>

definition build :: "int \<Rightarrow> int \<Rightarrow> build_error + firmware" where
  "build PRESCALER SAMPLE_COUNT =
     (case SINE_FULL_WAVE SAMPLE_COUNT of
        Inl e \<Rightarrow> Inl e
      | Inr tbl \<Rightarrow>
          (case PRESCALER_select PRESCALER of
             Inl e \<Rightarrow> Inl e
           | Inr cs \<Rightarrow>
               Inr \<lparr>fw_SAMPLE_COUNT = SAMPLE_COUNT, fw_SINE_FULL_WAVE = tbl, fw_CS = cs\<rparr>))"

text \<open>
  Compiling the sketch with \<open>#define PRESCALER p\<close> and \<open>#define SAMPLE_COUNT n\<close>,
  for integer constants \<open>p\<close> and \<open>n\<close> of any size: the chains see their values as
  the preprocessor has them. A firmware of \<open>compile\<close> is always a firmware of
  \<open>build\<close>, at values between 0 and \<open>2 ^ 64 - 1\<close>.
\<close>

definition compile :: "int \<Rightarrow> int \<Rightarrow> build_error + firmware" where
  "compile PRESCALER SAMPLE_COUNT = build (cpp_value PRESCALER) (cpp_value SAMPLE_COUNT)"

subsection \<open>Machine state\<close>

text \<open>
  The registers the sketch touches, the global interrupt flag toggled by \<open>cli\<close> and
  \<open>sei\<close>, and the function-local \<open>static uint16_t i\<close> of the interrupt routine.
\<close>

record avr =
  OCR2A :: uint8_t
  TCCR2A :: uint8_t
  TCCR2B :: uint8_t
  DDRB :: uint8_t
  TIMSK2 :: uint8_t
  I_flag :: bool
  i :: uint16_t

text \<open>
  The bit numbers behind the names \<open>COM2A1\<close>, \<open>WGM21\<close>, ... come from the device
  header, which the sketch includes implicitly; they are a parameter here.
\<close>

record io_bits =
  COM2A1 :: nat
  WGM21 :: nat
  WGM20 :: nat
  CS22 :: nat
  CS21 :: nat
  CS20 :: nat
  PORTB3 :: nat
  TOIE2 :: nat

definition bitSet :: "uint8_t \<Rightarrow> nat \<Rightarrow> uint8_t" where
  "bitSet r b = r OR push_bit b 1"

definition bitClear :: "uint8_t \<Rightarrow> nat \<Rightarrow> uint8_t" where
  "bitClear r b = r AND NOT (push_bit b 1)"

definition bitWrite :: "bool \<Rightarrow> uint8_t \<Rightarrow> nat \<Rightarrow> uint8_t" where
  "bitWrite v r b = (if v then bitSet r b else bitClear r b)"

subsection \<open>The three entry points\<close>

text \<open>
  The function \<open>setup\<close> of the sketch (the name is reserved in theory text, hence the
  suffix).
\<close>

definition setup_avr :: "io_bits \<Rightarrow> firmware \<Rightarrow> avr \<Rightarrow> avr" where
  "setup_avr io fw s =
     (let s = s\<lparr>OCR2A := 0\<rparr>;
          s = s\<lparr>TCCR2A := 0\<rparr>;
          s = s\<lparr>TCCR2B := 0\<rparr>;
          s = s\<lparr>TCCR2A := bitSet (TCCR2A s) (COM2A1 io)\<rparr>;
          s = s\<lparr>TCCR2A := bitSet (TCCR2A s) (WGM21 io)\<rparr>;
          s = s\<lparr>TCCR2A := bitSet (TCCR2A s) (WGM20 io)\<rparr>;
          s = (case fw_CS fw of (c2, c1, c0) \<Rightarrow>
                 (let s = s\<lparr>TCCR2B := bitWrite c2 (TCCR2B s) (CS22 io)\<rparr>;
                      s = s\<lparr>TCCR2B := bitWrite c1 (TCCR2B s) (CS21 io)\<rparr>
                  in s\<lparr>TCCR2B := bitWrite c0 (TCCR2B s) (CS20 io)\<rparr>));
          s = s\<lparr>DDRB := bitSet (DDRB s) (PORTB3 io)\<rparr>;
          s = s\<lparr>I_flag := False\<rparr>;
          s = s\<lparr>TIMSK2 := 0\<rparr>;
          s = s\<lparr>TIMSK2 := bitSet (TIMSK2 s) (TOIE2 io)\<rparr>
      in s\<lparr>I_flag := True\<rparr>)"

definition loop :: "avr \<Rightarrow> avr" where
  "loop s = s"

text \<open>
  Reading \<open>SINE_FULL_WAVE[i]\<close> past the end of the array is undefined behaviour; the
  model makes it a fault, so that a run which never faults never reads out of bounds.
\<close>

datatype fault = Out_Of_Bounds

text \<open>
  \<open>OCR2A = SINE_FULL_WAVE[i++]; i &= (SAMPLE_COUNT - 1);\<close> The subscript is the value of
  \<open>i\<close> before the increment; the increment wraps at 16 bits.
\<close>

definition ISR_TIMER2_OVF :: "firmware \<Rightarrow> avr \<Rightarrow> fault + avr" where
  "ISR_TIMER2_OVF fw s =
     (let idx = i s;
          s = s\<lparr>i := i s + 1\<rparr>
      in if unat idx < length (fw_SINE_FULL_WAVE fw)
         then (let s = s\<lparr>OCR2A := fw_SINE_FULL_WAVE fw ! unat idx\<rparr>
               in Inr (s\<lparr>i := i s AND word_of_int (fw_SAMPLE_COUNT fw - 1)\<rparr>))
         else Inl Out_Of_Bounds)"

subsection \<open>Simulating overflow events\<close>

text \<open>
  \<open>overflows fw n s\<close> runs the interrupt routine \<open>n\<close> times in a row and records,
  for each invocation, the index it entered with and the value it left in \<open>OCR2A\<close>.
\<close>

fun overflows :: "firmware \<Rightarrow> nat \<Rightarrow> avr \<Rightarrow> fault + (nat \<times> uint8_t) list \<times> avr" where
  "overflows fw 0 s = Inr ([], s)"
| "overflows fw (Suc n) s =
     (case ISR_TIMER2_OVF fw s of
        Inl f \<Rightarrow> Inl f
      | Inr s' \<Rightarrow>
          (case overflows fw n s' of
             Inl f \<Rightarrow> Inl f
           | Inr (tr, s'') \<Rightarrow> Inr ((unat (i s), OCR2A s') # tr, s'')))"

text \<open>The values written to \<open>OCR2A\<close> by \<open>n\<close> consecutive overflow events, in order.\<close>

definition written :: "firmware \<Rightarrow> nat \<Rightarrow> avr \<Rightarrow> fault + uint8_t list" where
  "written fw n s = (case overflows fw n s of Inl f \<Rightarrow> Inl f | Inr (tr, s') \<Rightarrow> Inr (map snd tr))"

text \<open>
  After \<open>setup\<close> two things happen, in any order: an iteration of the foreground
  \<open>loop\<close>, or a timer overflow that runs the interrupt routine to completion.
\<close>

datatype event = Loop_Iteration | Timer2_Overflow

fun run :: "firmware \<Rightarrow> event list \<Rightarrow> avr \<Rightarrow> fault + avr" where
  "run fw [] s = Inr s"
| "run fw (Loop_Iteration # es) s = run fw es (loop s)"
| "run fw (Timer2_Overflow # es) s =
     (case ISR_TIMER2_OVF fw s of Inl f \<Rightarrow> Inl f | Inr s' \<Rightarrow> run fw es s')"

subsection \<open>The frequency of the generated wave\<close>

text \<open>
  The clock-select bits of \<open>TCCR2B\<close> choose the divider between the CPU clock and
  Timer/Counter2; this is the table in the comment of \<open>setup\<close>, with \<open>CS22\<close>,
  \<open>CS21\<close>, \<open>CS20\<close> from left to right. With no clock source the timer stands still.
\<close>

fun Timer2_prescaler :: "bool \<times> bool \<times> bool \<Rightarrow> nat option" where
  "Timer2_prescaler (False, False, False) = None"
| "Timer2_prescaler (False, False, True) = Some 1"
| "Timer2_prescaler (False, True, False) = Some 8"
| "Timer2_prescaler (False, True, True) = Some 32"
| "Timer2_prescaler (True, False, False) = Some 64"
| "Timer2_prescaler (True, False, True) = Some 128"
| "Timer2_prescaler (True, True, False) = Some 256"
| "Timer2_prescaler (True, True, True) = Some 1024"

definition clock_select :: "io_bits \<Rightarrow> avr \<Rightarrow> bool \<times> bool \<times> bool" where
  "clock_select io s =
     (bit (TCCR2B s) (CS22 io), bit (TCCR2B s) (CS21 io), bit (TCCR2B s) (CS20 io))"

text \<open>
  The three clock-select bits are three different bits of the 8-bit register.
\<close>

definition clock_select_ok :: "io_bits \<Rightarrow> bool" where
  "clock_select_ok io \<longleftrightarrow>
     CS22 io < 8 \<and> CS21 io < 8 \<and> CS20 io < 8
     \<and> CS22 io \<noteq> CS21 io \<and> CS22 io \<noteq> CS20 io \<and> CS21 io \<noteq> CS20 io"

text \<open>
  A timer of \<open>timer_size\<close> bits overflows, and raises the overflow interrupt, once
  every \<open>2 ^ timer_size\<close> timer ticks, that is once every
  \<open>prescaler * 2 ^ timer_size\<close> CPU cycles.
\<close>

definition cycles_per_overflow :: "nat \<Rightarrow> io_bits \<Rightarrow> avr \<Rightarrow> nat option" where
  "cycles_per_overflow timer_size io s =
     map_option (\<lambda>d. d * 2 ^ timer_size) (Timer2_prescaler (clock_select io s))"

text \<open>
  The number of overflow events until the interrupt routine is back at index 0, that
  is until it has written one table, one full wave. The index has 16 bits, so
  \<open>65536\<close> events are enough fuel for any cycle; \<open>None\<close> stands for a fault or for
  an index that does not come back.
\<close>

fun until_wrap :: "firmware \<Rightarrow> nat \<Rightarrow> avr \<Rightarrow> nat option" where
  "until_wrap fw 0 s = None"
| "until_wrap fw (Suc fuel) s =
     (case ISR_TIMER2_OVF fw s of
        Inl f \<Rightarrow> None
      | Inr s' \<Rightarrow> if i s' = 0 then Some 1 else map_option Suc (until_wrap fw fuel s'))"

definition overflows_per_wave :: "firmware \<Rightarrow> avr \<Rightarrow> nat option" where
  "overflows_per_wave fw s = until_wrap fw 65536 s"

text \<open>
  The frequency of the wave in Hz, for a CPU clock of \<open>F_CPU\<close> Hz: one wave takes
  \<open>overflows_per_wave\<close> overflow events of \<open>cycles_per_overflow\<close> CPU cycles each.
\<close>

definition sine_frequency :: "real \<Rightarrow> nat \<Rightarrow> io_bits \<Rightarrow> firmware \<Rightarrow> avr \<Rightarrow> real option" where
  "sine_frequency F_CPU timer_size io fw s =
     (case cycles_per_overflow timer_size io s of
        None \<Rightarrow> None
      | Some c \<Rightarrow>
          (case overflows_per_wave fw s of
             None \<Rightarrow> None
           | Some n \<Rightarrow> Some (F_CPU / (real c * real n))))"

text \<open>A frequency as it is printed with two decimals: rounded to the nearest hundredth.\<close>

definition two_decimals :: "real \<Rightarrow> real" where
  "two_decimals x = of_int (round (100 * x)) / 100"

subsection \<open>Steps between table entries\<close>

text \<open>
  The jumps between neighbouring entries of a table, in units of one register count,
  and the largest of them.
\<close>

fun steps :: "uint8_t list \<Rightarrow> int list" where
  "steps (a # b # r) = \<bar>uint b - uint a\<bar> # steps (b # r)"
| "steps r = []"

definition largest_step :: "uint8_t list \<Rightarrow> int" where
  "largest_step tbl = fold max (steps tbl) 0"

subsection \<open>Checking a table against the sine\<close>

text \<open>
  The tables were calculated in advance; the sketch only stores them. To compare them
  with \<open>sin\<close> on the reals, the angle is advanced sample by sample with the addition
  formulas, in integer interval arithmetic: an enclosure \<open>(sl, su, cl, cu)\<close> of an
  angle \<open>x\<close> brackets \<open>SCALE * sin x\<close> between \<open>sl\<close> and \<open>su\<close> and
  \<open>SCALE * cos x\<close> between \<open>cl\<close> and \<open>cu\<close>.
\<close>

definition SCALE :: int where
  "SCALE = 4294967296"

type_synonym encl = "int \<times> int \<times> int \<times> int"

definition encloses :: "encl \<Rightarrow> real \<Rightarrow> bool" where
  "encloses e x =
     (case e of (sl, su, cl, cu) \<Rightarrow>
        of_int sl \<le> of_int SCALE * sin x \<and> of_int SCALE * sin x \<le> of_int su
      \<and> of_int cl \<le> of_int SCALE * cos x \<and> of_int SCALE * cos x \<le> of_int cu)"

text \<open>
  The enclosure of the step angle has non-negative lower bounds: the step is a small
  positive angle.
\<close>

definition base_ok :: "encl \<Rightarrow> real \<Rightarrow> bool" where
  "base_ok b t \<longleftrightarrow>
     encloses b t \<and> (case b of (s1l, s1u, c1l, c1u) \<Rightarrow> 0 \<le> s1l \<and> 0 \<le> c1l)"

text \<open>
  Bounds of a product \<open>x * y\<close> where \<open>x\<close> lies above \<open>xl\<close> (below \<open>xu\<close>) and
  \<open>y\<close> lies between the non-negative \<open>yl\<close> and \<open>yu\<close>.
\<close>

definition mul_lo :: "int \<Rightarrow> int \<Rightarrow> int \<Rightarrow> int" where
  "mul_lo xl yl yu = (if 0 \<le> xl then xl * yl else xl * yu)"

definition mul_hi :: "int \<Rightarrow> int \<Rightarrow> int \<Rightarrow> int" where
  "mul_hi xu yl yu = (if 0 \<le> xu then xu * yu else xu * yl)"

text \<open>Back to one factor of \<open>SCALE\<close>, rounding down and rounding up.\<close>

definition scale_down :: "int \<Rightarrow> int" where
  "scale_down a = a div SCALE"

definition scale_up :: "int \<Rightarrow> int" where
  "scale_up a = - ((- a) div SCALE)"

text \<open>
  From an enclosure of \<open>x\<close> to an enclosure of \<open>x + t\<close>, given one of the step \<open>t\<close>:
  \<open>sin (x + t) = sin x * cos t + cos x * sin t\<close> and
  \<open>cos (x + t) = cos x * cos t - sin x * sin t\<close>.
\<close>

fun advance :: "encl \<Rightarrow> encl \<Rightarrow> encl" where
  "advance (s1l, s1u, c1l, c1u) (sl, su, cl, cu) =
     (scale_down (mul_lo sl c1l c1u + mul_lo cl s1l s1u),
      scale_up (mul_hi su c1l c1u + mul_hi cu s1l s1u),
      scale_down (mul_lo cl c1l c1u - mul_hi su s1l s1u),
      scale_up (mul_hi cu c1l c1u - mul_lo sl s1l s1u))"

text \<open>
  The literal \<open>v\<close> is the rounding of \<open>127.5 + 127.5 * sin x\<close> as soon as
  \<open>v - 1/2 \<le> 127.5 + 127.5 * sin x < v + 1/2\<close>, that is
  \<open>2 * v - 256 \<le> 255 * sin x < 2 * v - 254\<close>; the enclosure decides it.
\<close>

fun sample_ok :: "encl \<Rightarrow> int \<Rightarrow> bool" where
  "sample_ok (sl, su, cl, cu) v \<longleftrightarrow>
     (2 * v - 256) * SCALE \<le> 255 * sl \<and> 255 * su < (2 * v - 254) * SCALE"

fun walk :: "encl \<Rightarrow> encl \<Rightarrow> int list \<Rightarrow> bool" where
  "walk b e [] \<longleftrightarrow> True"
| "walk b e (v # vs) \<longleftrightarrow> sample_ok e v \<and> walk b (advance b e) vs"

text \<open>
  The step angles \<open>2 * pi / 256\<close>, \<open>2 * pi / 512\<close> and \<open>2 * pi / 1024\<close> are reached
  from \<open>pi / 2\<close> by halving; \<open>CHAIN\<close> is the scale of the bounds along the way.
\<close>

definition CHAIN :: int where
  "CHAIN = 1000000000000000000000000000000"

definition step_256 :: encl where
  "step_256 = (105403773, 105403774, 4293673732, 4293673733)"

definition step_512 :: encl where
  "step_512 = (52705855, 52705856, 4294643892, 4294643893)"

definition step_1024 :: encl where
  "step_1024 = (26353423, 26353424, 4294886444, 4294886445)"

section \<open>Properties\<close>

subsection \<open>Table facts\<close>

lemma length_SINE_FULL_WAVE_256_init: "length SINE_FULL_WAVE_256_init = 256"
  by (simp add: SINE_FULL_WAVE_256_init_def)

lemma length_SINE_FULL_WAVE_512_init: "length SINE_FULL_WAVE_512_init = 512"
  by (simp add: SINE_FULL_WAVE_512_init_def)

lemma length_SINE_FULL_WAVE_1024_init: "length SINE_FULL_WAVE_1024_init = 1024"
  by (simp add: SINE_FULL_WAVE_1024_init_def)

lemma range_SINE_FULL_WAVE_256_init: "list_all (\<lambda>v. 0 \<le> v \<and> v \<le> 255) SINE_FULL_WAVE_256_init"
  by (simp add: SINE_FULL_WAVE_256_init_def)

lemma range_SINE_FULL_WAVE_512_init: "list_all (\<lambda>v. 0 \<le> v \<and> v \<le> 255) SINE_FULL_WAVE_512_init"
  by (simp add: SINE_FULL_WAVE_512_init_def)

lemma range_SINE_FULL_WAVE_1024_init: "list_all (\<lambda>v. 0 \<le> v \<and> v \<le> 255) SINE_FULL_WAVE_1024_init"
  by (simp add: SINE_FULL_WAVE_1024_init_def)

lemma length_SINE_FULL_WAVE_256: "length SINE_FULL_WAVE_256 = 256"
  by (simp add: SINE_FULL_WAVE_256_def length_SINE_FULL_WAVE_256_init)

lemma length_SINE_FULL_WAVE_512: "length SINE_FULL_WAVE_512 = 512"
  by (simp add: SINE_FULL_WAVE_512_def length_SINE_FULL_WAVE_512_init)

lemma length_SINE_FULL_WAVE_1024: "length SINE_FULL_WAVE_1024 = 1024"
  by (simp add: SINE_FULL_WAVE_1024_def length_SINE_FULL_WAVE_1024_init)

subsection \<open>What a successful build fixes\<close>

lemma SINE_FULL_WAVE_Inr:
  assumes "SINE_FULL_WAVE N = Inr tbl"
  shows "(N = 256 \<and> tbl = SINE_FULL_WAVE_256) \<or> (N = 512 \<and> tbl = SINE_FULL_WAVE_512)
       \<or> (N = 1024 \<and> tbl = SINE_FULL_WAVE_1024)"
  using assms by (auto simp: SINE_FULL_WAVE_def split: if_splits)

lemma SINE_FULL_WAVE_length:
  assumes "SINE_FULL_WAVE N = Inr tbl"
  shows "length tbl = nat N"
  using SINE_FULL_WAVE_Inr [OF assms]
  by (auto simp: length_SINE_FULL_WAVE_256 length_SINE_FULL_WAVE_512 length_SINE_FULL_WAVE_1024)

lemma SINE_FULL_WAVE_mask:
  assumes "SINE_FULL_WAVE N = Inr tbl"
  shows "\<exists>m\<le>16. nat N = 2 ^ m \<and> (word_of_int (N - 1) :: uint16_t) = mask m"
proof -
  consider "N = 256" | "N = 512" | "N = 1024"
    using SINE_FULL_WAVE_Inr [OF assms] by blast
  then show ?thesis
  proof cases
    case 1
    then have "nat N = 2 ^ 8 \<and> (word_of_int (N - 1) :: uint16_t) = mask 8"
      by (simp add: mask_eq_exp_minus_1)
    then show ?thesis by (intro exI [of _ 8]) simp
  next
    case 2
    then have "nat N = 2 ^ 9 \<and> (word_of_int (N - 1) :: uint16_t) = mask 9"
      by (simp add: mask_eq_exp_minus_1)
    then show ?thesis by (intro exI [of _ 9]) simp
  next
    case 3
    then have "nat N = 2 ^ 10 \<and> (word_of_int (N - 1) :: uint16_t) = mask 10"
      by (simp add: mask_eq_exp_minus_1)
    then show ?thesis by (intro exI [of _ 10]) simp
  qed
qed

lemma build_Inr:
  assumes "build P N = Inr fw"
  shows "SINE_FULL_WAVE N = Inr (fw_SINE_FULL_WAVE fw) \<and> fw_SAMPLE_COUNT fw = N
       \<and> PRESCALER_select P = Inr (fw_CS fw)"
  using assms by (auto simp: build_def split: sum.splits)

lemma build_length:
  assumes "build P N = Inr fw"
  shows "length (fw_SINE_FULL_WAVE fw) = nat N"
  using build_Inr [OF assms] by (simp add: SINE_FULL_WAVE_length)

subsection \<open>One invocation of the interrupt routine\<close>

lemma mask_step:
  fixes w :: uint16_t
  assumes "m \<le> 16"
  shows "unat ((w + 1) AND mask m) = (unat w + 1) mod 2 ^ m"
proof -
  have "unat ((w + 1) AND mask m) = take_bit m (unat (w + 1))"
    by (simp add: unsigned_take_bit_eq flip: take_bit_eq_mask)
  also have "\<dots> = unat (w + 1) mod 2 ^ m"
    by (simp add: take_bit_eq_mod)
  also have "unat (w + 1) = (unat w + 1) mod 2 ^ 16"
    by (simp add: unat_word_ariths)
  also have "((unat w + 1) mod 2 ^ 16) mod 2 ^ m = (unat w + 1) mod 2 ^ m"
  proof (rule mod_mod_cancel)
    show "(2::nat) ^ m dvd 2 ^ 16" using assms by (rule le_imp_power_dvd)
  qed
  finally show ?thesis .
qed

lemma build_wrap:
  assumes "build P N = Inr fw"
  shows "unat ((w + 1) AND (word_of_int (N - 1) :: uint16_t)) = (unat w + 1) mod nat N"
proof -
  from build_Inr [OF assms] have "SINE_FULL_WAVE N = Inr (fw_SINE_FULL_WAVE fw)" by simp
  from SINE_FULL_WAVE_mask [OF this]
  obtain m where m: "m \<le> 16" "nat N = 2 ^ m" "(word_of_int (N - 1) :: uint16_t) = mask m"
    by blast
  show ?thesis unfolding m(2) m(3) by (rule mask_step [OF m(1)])
qed

lemma ISR_in_bounds:
  assumes "build P N = Inr fw" and "unat (i s) < nat N"
  shows "ISR_TIMER2_OVF fw s =
           Inr (s\<lparr>OCR2A := fw_SINE_FULL_WAVE fw ! unat (i s),
                  i := (i s + 1) AND word_of_int (N - 1)\<rparr>)"
  using assms(2) build_Inr [OF assms(1)] build_length [OF assms(1)]
  by (simp add: ISR_TIMER2_OVF_def Let_def)

subsection \<open>Runs of the interrupt routine\<close>

lemma overflows_trace:
  assumes "build P N = Inr fw" and "unat (i s) < nat N"
  shows "\<exists>s'. overflows fw n s =
                 Inr (map (\<lambda>k. ((unat (i s) + k) mod nat N,
                                 fw_SINE_FULL_WAVE fw ! ((unat (i s) + k) mod nat N))) [0..<n], s')
              \<and> unat (i s') = (unat (i s) + n) mod nat N"
  using assms(2)
proof (induction n arbitrary: s)
  case 0
  then show ?case by simp
next
  case (Suc n)
  let ?T = "fw_SINE_FULL_WAVE fw"
  let ?w = "(i s + 1) AND word_of_int (N - 1)"
  let ?s1 = "s\<lparr>OCR2A := ?T ! unat (i s), i := ?w\<rparr>"
  have step: "ISR_TIMER2_OVF fw s = Inr ?s1"
    using ISR_in_bounds [OF assms(1) Suc.prems] .
  have sel: "i ?s1 = ?w" "OCR2A ?s1 = ?T ! unat (i s)"
    by simp_all
  have w: "unat ?w = (unat (i s) + 1) mod nat N"
    by (rule build_wrap [OF assms(1)])
  have pos: "0 < nat N" using Suc.prems by simp
  then have bound: "unat (i ?s1) < nat N" unfolding sel w by simp
  from Suc.IH [OF bound] obtain s' where
    run: "overflows fw n ?s1 =
            Inr (map (\<lambda>k. ((unat (i ?s1) + k) mod nat N, ?T ! ((unat (i ?s1) + k) mod nat N)))
                   [0..<n], s')"
    and fin: "unat (i s') = (unat (i ?s1) + n) mod nat N"
    by blast
  have shift: "(unat (i ?s1) + k) mod nat N = (unat (i s) + Suc k) mod nat N" for k
    unfolding sel w by (simp add: mod_add_left_eq)
  have here: "unat (i s) mod nat N = unat (i s)" using Suc.prems by simp
  have "overflows fw (Suc n) s =
          Inr ((unat (i s), OCR2A ?s1)
               # map (\<lambda>k. ((unat (i ?s1) + k) mod nat N, ?T ! ((unat (i ?s1) + k) mod nat N)))
                   [0..<n], s')"
    using step run by simp
  also have "(unat (i s), OCR2A ?s1)
               # map (\<lambda>k. ((unat (i ?s1) + k) mod nat N, ?T ! ((unat (i ?s1) + k) mod nat N)))
                   [0..<n]
           = map (\<lambda>k. ((unat (i s) + k) mod nat N, ?T ! ((unat (i s) + k) mod nat N)))
               [0..<Suc n]"
    unfolding shift sel(2) map_upt_Suc by (simp add: here)
  finally have "overflows fw (Suc n) s =
          Inr (map (\<lambda>k. ((unat (i s) + k) mod nat N, ?T ! ((unat (i s) + k) mod nat N)))
                 [0..<Suc n], s')" .
  moreover have "unat (i s') = (unat (i s) + Suc n) mod nat N"
    unfolding fin shift ..
  ultimately show ?case by blast
qed

lemma build_size:
  assumes "build P N = Inr fw"
  shows "0 < N \<and> N \<le> 1024"
proof -
  from build_Inr [OF assms] have "SINE_FULL_WAVE N = Inr (fw_SINE_FULL_WAVE fw)" by simp
  from SINE_FULL_WAVE_Inr [OF this] show ?thesis by auto
qed

lemma overflows_from_zero:
  assumes "build P N = Inr fw" and "i s = 0"
  shows "\<exists>s'. overflows fw n s =
                 Inr (map (\<lambda>k. (k mod nat N, fw_SINE_FULL_WAVE fw ! (k mod nat N))) [0..<n], s')
              \<and> unat (i s') = n mod nat N"
proof -
  have "unat (i s) < nat N"
    using assms(2) build_size [OF assms(1)] by simp
  from overflows_trace [OF assms(1) this, of n] show ?thesis
    using assms(2) by simp
qed

lemma periodic_trace:
  fixes tbl :: "'a list"
  assumes "0 < length tbl" and "n \<le> length tbl"
  shows "map (\<lambda>k. (k mod length tbl, tbl ! (k mod length tbl))) [0..<length tbl + n]
       = zip [0..<length tbl] tbl @ take n (zip [0..<length tbl] tbl)"
proof (rule nth_equalityI)
  show "length (map (\<lambda>k. (k mod length tbl, tbl ! (k mod length tbl))) [0..<length tbl + n])
      = length (zip [0..<length tbl] tbl @ take n (zip [0..<length tbl] tbl))"
    using assms(2) by simp
next
  fix j
  assume "j < length (map (\<lambda>k. (k mod length tbl, tbl ! (k mod length tbl)))
                        [0..<length tbl + n])"
  then have j: "j < length tbl + n" by simp
  show "map (\<lambda>k. (k mod length tbl, tbl ! (k mod length tbl))) [0..<length tbl + n] ! j
      = (zip [0..<length tbl] tbl @ take n (zip [0..<length tbl] tbl)) ! j"
  proof (cases "j < length tbl")
    case True
    then show ?thesis using j by (simp add: nth_append)
  next
    case False
    then have "j mod length tbl = j - length tbl"
      using j assms(2) by (simp add: mod_if)
    then show ?thesis using False j assms(2) by (simp add: nth_append)
  qed
qed

lemma ISR_reads_only_index:
  assumes "i s1 = i s2" and "fw_SINE_FULL_WAVE fw1 = fw_SINE_FULL_WAVE fw2"
    and "fw_SAMPLE_COUNT fw1 = fw_SAMPLE_COUNT fw2"
  shows "(case ISR_TIMER2_OVF fw1 s1 of
            Inl f \<Rightarrow> ISR_TIMER2_OVF fw2 s2 = Inl f
          | Inr s1' \<Rightarrow> (\<exists>s2'. ISR_TIMER2_OVF fw2 s2 = Inr s2' \<and> i s2' = i s1'
                                \<and> OCR2A s2' = OCR2A s1'))"
  using assms by (simp add: ISR_TIMER2_OVF_def Let_def)

lemma overflows_reads_only_index:
  assumes "fw_SINE_FULL_WAVE fw1 = fw_SINE_FULL_WAVE fw2"
    and "fw_SAMPLE_COUNT fw1 = fw_SAMPLE_COUNT fw2"
  shows "i s1 = i s2
         \<Longrightarrow> map_sum id fst (overflows fw1 n s1) = map_sum id fst (overflows fw2 n s2)"
proof (induction n arbitrary: s1 s2)
  case 0
  then show ?case by simp
next
  case (Suc n)
  note same = ISR_reads_only_index [OF Suc.prems assms]
  show ?case
  proof (cases "ISR_TIMER2_OVF fw1 s1")
    case (Inl f)
    then have "ISR_TIMER2_OVF fw2 s2 = Inl f"
      using same by simp
    with Inl show ?thesis by simp
  next
    case (Inr s1')
    then obtain s2' where s2': "ISR_TIMER2_OVF fw2 s2 = Inr s2'" "i s2' = i s1'"
        "OCR2A s2' = OCR2A s1'"
      using same by auto
    have "map_sum id fst (overflows fw1 n s1') = map_sum id fst (overflows fw2 n s2')"
      by (rule Suc.IH) (simp add: s2'(2))
    then show ?thesis
      using Inr s2' Suc.prems
      by (cases "overflows fw1 n s1'"; cases "overflows fw2 n s2'") auto
  qed
qed

lemma uint_word_of_int_u8:
  assumes "0 \<le> v" and "v \<le> 255"
  shows "uint (word_of_int v :: uint8_t) = v"
  using assms by (simp add: uint_word_of_int take_bit_eq_mod)

lemma SINE_FULL_WAVE_256_last: "SINE_FULL_WAVE_256 ! 255 = 124"
  by (simp add: SINE_FULL_WAVE_256_def SINE_FULL_WAVE_256_init_def)

lemma SINE_FULL_WAVE_256_first: "SINE_FULL_WAVE_256 ! 0 = 128"
  by (simp add: SINE_FULL_WAVE_256_def SINE_FULL_WAVE_256_init_def)

lemma SINE_FULL_WAVE_512_last: "SINE_FULL_WAVE_512 ! 511 = 126"
  by (simp add: SINE_FULL_WAVE_512_def SINE_FULL_WAVE_512_init_def)

lemma SINE_FULL_WAVE_512_first: "SINE_FULL_WAVE_512 ! 0 = 128"
  by (simp add: SINE_FULL_WAVE_512_def SINE_FULL_WAVE_512_init_def)

lemma SINE_FULL_WAVE_1024_last: "SINE_FULL_WAVE_1024 ! 1023 = 127"
  by (simp add: SINE_FULL_WAVE_1024_def SINE_FULL_WAVE_1024_init_def)

lemma SINE_FULL_WAVE_1024_first: "SINE_FULL_WAVE_1024 ! 0 = 128"
  by (simp add: SINE_FULL_WAVE_1024_def SINE_FULL_WAVE_1024_init_def)

lemma largest_step_256: "largest_step SINE_FULL_WAVE_256 = 4"
  by (simp add: largest_step_def SINE_FULL_WAVE_256_def SINE_FULL_WAVE_256_init_def)

lemma largest_step_512: "largest_step SINE_FULL_WAVE_512 = 2"
  by (simp add: largest_step_def SINE_FULL_WAVE_512_def SINE_FULL_WAVE_512_init_def)

lemma largest_step_1024: "largest_step SINE_FULL_WAVE_1024 = 1"
  by (simp add: largest_step_def SINE_FULL_WAVE_1024_def SINE_FULL_WAVE_1024_init_def)

lemma build_1_256:
  "build 1 256 = Inr \<lparr>fw_SAMPLE_COUNT = 256, fw_SINE_FULL_WAVE = SINE_FULL_WAVE_256,
                      fw_CS = (False, False, True)\<rparr>"
  by (simp add: build_def SINE_FULL_WAVE_def PRESCALER_select_def)

lemma setup_avr_keeps_index: "i (setup_avr io fw s) = i s"
  by (simp add: setup_avr_def Let_def split: prod.splits)

lemma setup_avr_example:
  "setup_avr
     \<lparr>COM2A1 = 7, WGM21 = 1, WGM20 = 0, CS22 = 2, CS21 = 1, CS20 = 0, PORTB3 = 3, TOIE2 = 0\<rparr>
     \<lparr>fw_SAMPLE_COUNT = 256, fw_SINE_FULL_WAVE = SINE_FULL_WAVE_256,
      fw_CS = (False, False, True)\<rparr>
     \<lparr>OCR2A = 0, TCCR2A = 0, TCCR2B = 0, DDRB = 0, TIMSK2 = 0, I_flag = True, i = 0\<rparr>
   = \<lparr>OCR2A = 0, TCCR2A = 131, TCCR2B = 1, DDRB = 8, TIMSK2 = 1, I_flag = True, i = 0\<rparr>"
  by (simp add: setup_avr_def bitSet_def bitClear_def bitWrite_def)

subsection \<open>Preprocessor values, clock select and the length of a wave\<close>

lemma cpp_value_small:
  assumes "- (2 ^ 63) \<le> v" and "v < 2 ^ 64" and "0 \<le> c" and "c < 2 ^ 63"
  shows "cpp_value v = c \<longleftrightarrow> v = c"
proof (cases "0 \<le> v")
  case True
  then have "cpp_value v = v" using assms(2) by (simp add: cpp_value_def)
  then show ?thesis by simp
next
  case False
  define M :: int where "M = 2 ^ 64"
  have "v mod M = (v + M) mod M" by simp
  also have "\<dots> = v + M"
    using assms(1) False by (intro mod_pos_pos_trivial) (simp_all add: M_def)
  finally have "cpp_value v = v + 2 ^ 64" by (simp add: cpp_value_def M_def)
  then show ?thesis using assms False by auto
qed

lemma compile_build:
  assumes "compile P N = Inr fw"
  shows "build (cpp_value P) (cpp_value N) = Inr fw"
  using assms by (simp add: compile_def)

lemma build_fails_iff:
  "(\<exists>e. build P N = Inl e) \<longleftrightarrow>
     (N \<notin> {256, 512, 1024} \<or> P \<notin> {1, 8, 32, 64, 128, 256, 1024})"
  by (simp add: build_def SINE_FULL_WAVE_def PRESCALER_select_def)

lemma build_succeeds_iff:
  "(\<exists>fw. build P N = Inr fw) \<longleftrightarrow>
     (N \<in> {256, 512, 1024} \<and> P \<in> {1, 8, 32, 64, 128, 256, 1024})"
  by (simp add: build_def SINE_FULL_WAVE_def PRESCALER_select_def)

lemma bit_bitSet:
  assumes "n < 8"
  shows "bit (bitSet r b) n \<longleftrightarrow> n = b \<or> bit r n"
  using assms by (auto simp: bitSet_def bit_simps)

lemma bit_bitClear:
  assumes "n < 8"
  shows "bit (bitClear r b) n \<longleftrightarrow> n \<noteq> b \<and> bit r n"
  using assms by (auto simp: bitClear_def bit_simps)

lemma bit_bitWrite:
  assumes "n < 8"
  shows "bit (bitWrite v r b) n \<longleftrightarrow> (if n = b then v else bit r n)"
  using assms by (simp add: bitWrite_def bit_bitSet bit_bitClear)

lemma clock_select_setup_avr:
  assumes "clock_select_ok io"
  shows "clock_select io (setup_avr io fw s) = fw_CS fw"
proof -
  obtain c2 c1 c0 where cs: "fw_CS fw = (c2, c1, c0)" by (cases "fw_CS fw")
  from assms have b: "CS22 io < 8" "CS21 io < 8" "CS20 io < 8"
      "CS22 io \<noteq> CS21 io" "CS22 io \<noteq> CS20 io" "CS21 io \<noteq> CS20 io"
    by (simp_all add: clock_select_ok_def)
  have "TCCR2B (setup_avr io fw s)
      = bitWrite c0 (bitWrite c1 (bitWrite c2 0 (CS22 io)) (CS21 io)) (CS20 io)"
    by (simp add: setup_avr_def cs)
  then show ?thesis
    using b by (simp add: clock_select_def cs bit_bitWrite)
qed

lemma Timer2_prescaler_select:
  assumes "PRESCALER_select P = Inr cs"
  shows "Timer2_prescaler cs = Some (nat P)"
  using assms by (auto simp: PRESCALER_select_def split: if_splits)

lemma until_wrap_build:
  assumes "build P N = Inr fw"
  shows "unat (i s) < nat N \<Longrightarrow> nat N - unat (i s) \<le> fuel
         \<Longrightarrow> until_wrap fw fuel s = Some (nat N - unat (i s))"
proof (induction fuel arbitrary: s)
  case 0
  then show ?case by simp
next
  case (Suc fuel)
  let ?w = "(i s + 1) AND word_of_int (N - 1) :: uint16_t"
  let ?s1 = "s\<lparr>OCR2A := fw_SINE_FULL_WAVE fw ! unat (i s), i := ?w\<rparr>"
  have step: "ISR_TIMER2_OVF fw s = Inr ?s1"
    using ISR_in_bounds [OF assms Suc.prems(1)] .
  have w: "unat ?w = (unat (i s) + 1) mod nat N"
    by (rule build_wrap [OF assms])
  show ?case
  proof (cases "unat (i s) + 1 = nat N")
    case True
    then have "unat ?w = 0" using w by simp
    then have "?w = 0" by (simp only: unat_eq_0)
    then show ?thesis using step True by simp
  next
    case False
    then have lt: "unat (i s) + 1 < nat N" using Suc.prems(1) by simp
    then have w': "unat ?w = unat (i s) + 1" using w by simp
    then have nz: "?w \<noteq> 0" by (metis Suc_eq_plus1 nat.distinct(1) unat_eq_0)
    have "until_wrap fw fuel ?s1 = Some (nat N - unat (i ?s1))"
    proof (rule Suc.IH)
      show "unat (i ?s1) < nat N" using lt w' by simp
      show "nat N - unat (i ?s1) \<le> fuel" using Suc.prems(2) w' by simp
    qed
    then have "until_wrap fw fuel ?s1 = Some (nat N - (unat (i s) + 1))"
      using w' by simp
    then show ?thesis using step nz lt by simp
  qed
qed


lemma build_8_512:
  "build 8 512 = Inr \<lparr>fw_SAMPLE_COUNT = 512, fw_SINE_FULL_WAVE = SINE_FULL_WAVE_512,
                      fw_CS = (False, True, False)\<rparr>"
  by (simp add: build_def SINE_FULL_WAVE_def PRESCALER_select_def)

lemma sine_frequency_build:
  assumes "build P N = Inr fw" and "clock_select_ok io" and "i s = 0"
  shows "sine_frequency F_CPU timer_size io fw (setup_avr io fw s)
       = Some (F_CPU / (real (nat P * 2 ^ timer_size) * real (nat N)))"
proof -
  let ?s = "setup_avr io fw s"
  have sel: "PRESCALER_select P = Inr (fw_CS fw)"
    using build_Inr [OF assms(1)] by simp
  have "cycles_per_overflow timer_size io ?s = Some (nat P * 2 ^ timer_size)"
    using clock_select_setup_avr [OF assms(2), of fw s] Timer2_prescaler_select [OF sel]
    by (simp add: cycles_per_overflow_def)
  moreover have "overflows_per_wave fw ?s = Some (nat N)"
  proof -
    have z: "unat (i ?s) = 0" using assms(3) by (simp add: setup_avr_keeps_index)
    have size: "0 < N" "N \<le> 1024" using build_size [OF assms(1)] by simp_all
    have "until_wrap fw 65536 ?s = Some (nat N - unat (i ?s))"
      using size z by (intro until_wrap_build [OF assms(1)]) simp_all
    then show ?thesis by (simp add: overflows_per_wave_def z)
  qed
  ultimately show ?thesis by (simp add: sine_frequency_def)
qed

section \<open>The claims\<close>

subsection \<open>The interrupt routine\<close>

text \<open>
  C1. One invocation of the overflow routine, entered with phase index \<open>i\<close>, writes
  \<open>SINE_FULL_WAVE[i]\<close> to \<open>OCR2A\<close>, increments \<open>i\<close> and masks it with
  \<open>SAMPLE_COUNT - 1\<close>, which wraps it modulo \<open>SAMPLE_COUNT\<close>. The resulting state is
  the old one with exactly these two components replaced, and it is a function of the
  old index and the table alone: nothing else is read or written.
\<close>

theorem ISR_writes_sample_then_wraps:
  assumes "build P N = Inr fw" and "unat (i s) < nat N"
  shows "ISR_TIMER2_OVF fw s =
           Inr (s\<lparr>OCR2A := fw_SINE_FULL_WAVE fw ! unat (i s),
                  i := (i s + 1) AND word_of_int (N - 1)\<rparr>)
       \<and> unat ((i s + 1) AND (word_of_int (N - 1) :: uint16_t)) = (unat (i s) + 1) mod nat N"
  using ISR_in_bounds [OF assms] build_wrap [OF assms(1), of "i s"] by simp

theorem ISR_writes_sample_then_wraps_witness:
  "ISR_TIMER2_OVF
     \<lparr>fw_SAMPLE_COUNT = 256, fw_SINE_FULL_WAVE = SINE_FULL_WAVE_256,
      fw_CS = (False, False, True)\<rparr>
     \<lparr>OCR2A = 121, TCCR2A = 131, TCCR2B = 1, DDRB = 8, TIMSK2 = 1, I_flag = True, i = 255\<rparr>
   = Inr \<lparr>OCR2A = 124, TCCR2A = 131, TCCR2B = 1, DDRB = 8, TIMSK2 = 1, I_flag = True, i = 0\<rparr>"
proof -
  let ?s = "\<lparr>OCR2A = 121, TCCR2A = 131, TCCR2B = 1, DDRB = 8, TIMSK2 = 1, I_flag = True,
             i = 255 :: uint16_t\<rparr>"
  have r: "unat (i ?s) < nat 256" by simp
  show ?thesis
    using ISR_writes_sample_then_wraps [OF build_1_256 r]
    by (simp add: SINE_FULL_WAVE_256_last)
qed

text \<open>
  C2. From phase index 0, \<open>SAMPLE_COUNT\<close> consecutive invocations enter with the
  indices \<open>0, 1, ..., SAMPLE_COUNT - 1\<close> in this order, each once, write the table
  entries in order and leave the index at 0 again; the following invocations repeat the
  same sequence from its start. For the 256-entry table, 260 overflow events write the
  whole table followed by its first four entries.
\<close>

theorem sampler_cycle:
  assumes "build P N = Inr fw" and "i s = 0"
  shows "(\<exists>s'. overflows fw (nat N) s = Inr (zip [0..<nat N] (fw_SINE_FULL_WAVE fw), s')
              \<and> i s' = 0)
       \<and> (\<forall>n\<le>nat N. \<exists>s'. overflows fw (nat N + n) s =
               Inr (zip [0..<nat N] (fw_SINE_FULL_WAVE fw)
                    @ take n (zip [0..<nat N] (fw_SINE_FULL_WAVE fw)), s'))
       \<and> (N = 256 \<longrightarrow>
            written fw 260 s = Inr (SINE_FULL_WAVE_256 @ take 4 SINE_FULL_WAVE_256))"
proof -
  let ?T = "fw_SINE_FULL_WAVE fw"
  have len: "length ?T = nat N" by (rule build_length [OF assms(1)])
  have pos: "0 < length ?T" using build_size [OF assms(1)] len by simp
  have more: "\<exists>s'. overflows fw (nat N + n) s =
                 Inr (zip [0..<nat N] ?T @ take n (zip [0..<nat N] ?T), s')
               \<and> unat (i s') = (nat N + n) mod nat N"
    if "n \<le> nat N" for n
  proof -
    from that have n: "n \<le> length ?T" using len by simp
    from overflows_from_zero [OF assms, of "nat N + n"] obtain s' where
      s': "overflows fw (nat N + n) s =
             Inr (map (\<lambda>k. (k mod nat N, ?T ! (k mod nat N))) [0..<nat N + n], s')"
      "unat (i s') = (nat N + n) mod nat N"
      by blast
    have "map (\<lambda>k. (k mod nat N, ?T ! (k mod nat N))) [0..<nat N + n]
        = zip [0..<nat N] ?T @ take n (zip [0..<nat N] ?T)"
      using periodic_trace [OF pos n] unfolding len .
    with s' show ?thesis by auto
  qed
  have first: "\<exists>s'. overflows fw (nat N) s = Inr (zip [0..<nat N] ?T, s') \<and> i s' = 0"
    using more [of 0] by (simp add: unat_eq_0)
  have wrap: "\<forall>n\<le>nat N. \<exists>s'. overflows fw (nat N + n) s =
                Inr (zip [0..<nat N] ?T @ take n (zip [0..<nat N] ?T), s')"
    using more by blast
  have scenario: "written fw 260 s = Inr (SINE_FULL_WAVE_256 @ take 4 SINE_FULL_WAVE_256)"
    if "N = 256"
  proof -
    have T: "?T = SINE_FULL_WAVE_256"
      using build_Inr [OF assms(1)] that by (simp add: SINE_FULL_WAVE_def)
    have "(4::nat) \<le> nat N" using that by simp
    from more [OF this] obtain s' where
      "overflows fw (nat N + 4) s =
         Inr (zip [0..<nat N] ?T @ take 4 (zip [0..<nat N] ?T), s')"
      by blast
    moreover have "nat N + 4 = 260" using that by simp
    moreover have "map snd (zip [0..<nat N] ?T @ take 4 (zip [0..<nat N] ?T))
                 = ?T @ take 4 ?T"
      using len by (simp add: take_map [symmetric])
    ultimately show ?thesis
      unfolding written_def T by simp
  qed
  from first wrap scenario show ?thesis by blast
qed

theorem sampler_cycle_witness:
  "(\<exists>s'. overflows
            \<lparr>fw_SAMPLE_COUNT = 256, fw_SINE_FULL_WAVE = SINE_FULL_WAVE_256,
             fw_CS = (False, False, True)\<rparr> 256
            \<lparr>OCR2A = 0, TCCR2A = 131, TCCR2B = 1, DDRB = 8, TIMSK2 = 1, I_flag = True, i = 0\<rparr>
          = Inr (zip [0..<256] SINE_FULL_WAVE_256, s') \<and> i s' = 0)
   \<and> written
        \<lparr>fw_SAMPLE_COUNT = 256, fw_SINE_FULL_WAVE = SINE_FULL_WAVE_256,
         fw_CS = (False, False, True)\<rparr> 260
        \<lparr>OCR2A = 0, TCCR2A = 131, TCCR2B = 1, DDRB = 8, TIMSK2 = 1, I_flag = True, i = 0\<rparr>
      = Inr (SINE_FULL_WAVE_256 @ take 4 SINE_FULL_WAVE_256)"
proof -
  let ?s = "\<lparr>OCR2A = 0, TCCR2A = 131, TCCR2B = 1, DDRB = 8, TIMSK2 = 1, I_flag = True,
             i = 0 :: uint16_t\<rparr>"
  have z: "i ?s = 0" by simp
  show ?thesis
    using sampler_cycle [OF build_1_256 z] by simp
qed

text \<open>
  C10. Starting from index 0, any number \<open>k\<close> of invocations runs without reading
  outside the table: the \<open>j\<close>-th of them (counting from 0) enters with index
  \<open>j mod SAMPLE_COUNT\<close>, the index after them is \<open>k mod SAMPLE_COUNT\<close>, which is
  below \<open>SAMPLE_COUNT\<close>, so the next invocation is in bounds as well. The incremented
  value before the mask is one more than that (it reaches \<open>SAMPLE_COUNT\<close> at the
  last entry, with no 16-bit overflow).
\<close>

theorem index_always_in_bounds:
  assumes "build P N = Inr fw" and "i s = 0"
  shows "\<exists>tr s'. overflows fw k s = Inr (tr, s')
           \<and> map fst tr = map (\<lambda>j. j mod nat N) [0..<k]
           \<and> (\<forall>j\<in>set (map fst tr). j < length (fw_SINE_FULL_WAVE fw))
           \<and> unat (i s') = k mod nat N
           \<and> unat (i s') < length (fw_SINE_FULL_WAVE fw)
           \<and> unat (i s' + 1) = k mod nat N + 1
           \<and> (\<exists>s''. ISR_TIMER2_OVF fw s' = Inr s'')"
proof -
  let ?T = "fw_SINE_FULL_WAVE fw"
  have len: "length ?T = nat N" by (rule build_length [OF assms(1)])
  have size: "0 < N" "N \<le> 1024" using build_size [OF assms(1)] by simp_all
  from overflows_from_zero [OF assms, of k] obtain s' where
    s': "overflows fw k s = Inr (map (\<lambda>j. (j mod nat N, ?T ! (j mod nat N))) [0..<k], s')"
    "unat (i s') = k mod nat N"
    by blast
  let ?tr = "map (\<lambda>j. (j mod nat N, ?T ! (j mod nat N))) [0..<k]"
  have fst: "map fst ?tr = map (\<lambda>j. j mod nat N) [0..<k]"
    by (simp add: comp_def)
  have inb: "\<forall>j\<in>set (map fst ?tr). j < length ?T"
    unfolding fst len using size(1) by simp
  have below: "unat (i s') < nat N"
    unfolding s'(2) using size(1) by simp
  have "unat (i s' + 1) = (unat (i s') + 1) mod 2 ^ 16"
    by (simp add: unat_word_ariths)
  also have "\<dots> = unat (i s') + 1"
    using below size(2) by simp
  finally have inc: "unat (i s' + 1) = k mod nat N + 1"
    unfolding s'(2) .
  have next_ok: "\<exists>s''. ISR_TIMER2_OVF fw s' = Inr s''"
    using ISR_in_bounds [OF assms(1) below] by blast
  from s'(1) fst inb s'(2) below inc next_ok show ?thesis
    unfolding len by blast
qed

theorem index_always_in_bounds_witness:
  "\<exists>tr s'. overflows
             \<lparr>fw_SAMPLE_COUNT = 256, fw_SINE_FULL_WAVE = SINE_FULL_WAVE_256,
              fw_CS = (False, False, True)\<rparr> 1000
             \<lparr>OCR2A = 0, TCCR2A = 131, TCCR2B = 1, DDRB = 8, TIMSK2 = 1, I_flag = True, i = 0\<rparr>
           = Inr (tr, s')
         \<and> i s' = 232 \<and> (\<forall>j\<in>set (map fst tr). j < 256)"
proof -
  let ?s = "\<lparr>OCR2A = 0, TCCR2A = 131, TCCR2B = 1, DDRB = 8, TIMSK2 = 1, I_flag = True,
             i = 0 :: uint16_t\<rparr>"
  have z: "i ?s = 0" by simp
  from index_always_in_bounds [OF build_1_256 z, of 1000] obtain tr s' where
    r: "overflows
          \<lparr>fw_SAMPLE_COUNT = 256, fw_SINE_FULL_WAVE = SINE_FULL_WAVE_256,
           fw_CS = (False, False, True)\<rparr> 1000 ?s = Inr (tr, s')"
      "\<forall>j\<in>set (map fst tr). j < length SINE_FULL_WAVE_256"
      "unat (i s') = 1000 mod nat 256"
    by auto
  from r(3) have "unat (i s') = unat (232 :: uint16_t)" by simp
  then have "i s' = 232" by (simp only: word_unat_eq_iff)
  with r(1,2) show ?thesis
    by (auto simp: length_SINE_FULL_WAVE_256)
qed

text \<open>
  C7. The values written to \<open>OCR2A\<close> by a run are determined by the phase index the
  run starts with and by the table (with its \<open>SAMPLE_COUNT\<close>): two runs that agree on
  these write the same sequence, whatever the rest of the two machine states and the
  prescaler setting are.
\<close>

theorem sampler_deterministic:
  assumes "i s1 = i s2" and "fw_SINE_FULL_WAVE fw1 = fw_SINE_FULL_WAVE fw2"
    and "fw_SAMPLE_COUNT fw1 = fw_SAMPLE_COUNT fw2"
  shows "written fw1 n s1 = written fw2 n s2"
proof -
  have eq: "map_sum id fst (overflows fw1 n s1) = map_sum id fst (overflows fw2 n s2)"
    using assms(2,3,1) by (rule overflows_reads_only_index)
  show ?thesis
  proof (cases "overflows fw1 n s1")
    case (Inl f)
    with eq show ?thesis
      by (cases "overflows fw2 n s2") (simp_all add: written_def)
  next
    case (Inr r)
    with eq show ?thesis
      by (cases "overflows fw2 n s2") (auto simp: written_def split: prod.splits)
  qed
qed

theorem sampler_deterministic_witness:
  "written
     \<lparr>fw_SAMPLE_COUNT = 256, fw_SINE_FULL_WAVE = SINE_FULL_WAVE_256,
      fw_CS = (False, False, True)\<rparr> 300
     \<lparr>OCR2A = 0, TCCR2A = 131, TCCR2B = 1, DDRB = 8, TIMSK2 = 1, I_flag = True, i = 7\<rparr>
   = written
     \<lparr>fw_SAMPLE_COUNT = 256, fw_SINE_FULL_WAVE = SINE_FULL_WAVE_256,
      fw_CS = (True, True, True)\<rparr> 300
     \<lparr>OCR2A = 99, TCCR2A = 0, TCCR2B = 7, DDRB = 0, TIMSK2 = 0, I_flag = False, i = 7\<rparr>"
proof -
  have same:
    "i \<lparr>OCR2A = 0, TCCR2A = 131, TCCR2B = 1, DDRB = 8, TIMSK2 = 1, I_flag = True,
        i = 7 :: uint16_t\<rparr>
   = i \<lparr>OCR2A = 99, TCCR2A = 0, TCCR2B = 7, DDRB = 0, TIMSK2 = 0, I_flag = False,
        i = 7 :: uint16_t\<rparr>"
    by simp
  show ?thesis by (rule sampler_deterministic [OF same]) simp_all
qed

subsection \<open>The foreground loop\<close>

text \<open>
  C9. An iteration of the foreground \<open>loop\<close> changes nothing, in particular neither
  the phase index nor \<open>OCR2A\<close>. Hence, in any interleaving of loop iterations and
  timer overflows after \<open>setup\<close>, the machine ends in the state that the overflow
  events alone produce: only the interrupt routine mutates the state.
\<close>

theorem foreground_loop_frame:
  "loop s = s \<and> i (loop s) = i s \<and> OCR2A (loop s) = OCR2A s
   \<and> run fw es s = run fw (filter (\<lambda>e. e = Timer2_Overflow) es) s"
proof -
  have "run fw es s = run fw (filter (\<lambda>e. e = Timer2_Overflow) es) s"
  proof (induction es arbitrary: s)
    case Nil
    show ?case by simp
  next
    case (Cons e es)
    show ?case
    proof (cases e)
      case Loop_Iteration
      then show ?thesis using Cons.IH [of s] by (simp add: loop_def)
    next
      case Timer2_Overflow
      then show ?thesis using Cons.IH by (simp split: sum.splits)
    qed
  qed
  then show ?thesis by (simp add: loop_def)
qed

theorem foreground_loop_frame_witness:
  "run \<lparr>fw_SAMPLE_COUNT = 256, fw_SINE_FULL_WAVE = SINE_FULL_WAVE_256,
        fw_CS = (False, False, True)\<rparr>
       [Loop_Iteration, Timer2_Overflow, Loop_Iteration, Loop_Iteration]
       \<lparr>OCR2A = 121, TCCR2A = 131, TCCR2B = 1, DDRB = 8, TIMSK2 = 1, I_flag = True, i = 255\<rparr>
   = Inr \<lparr>OCR2A = 124, TCCR2A = 131, TCCR2B = 1, DDRB = 8, TIMSK2 = 1, I_flag = True, i = 0\<rparr>"
proof -
  let ?fw = "\<lparr>fw_SAMPLE_COUNT = 256, fw_SINE_FULL_WAVE = SINE_FULL_WAVE_256,
              fw_CS = (False, False, True)\<rparr>"
  let ?s = "\<lparr>OCR2A = 121, TCCR2A = 131, TCCR2B = 1, DDRB = 8, TIMSK2 = 1, I_flag = True,
             i = 255 :: uint16_t\<rparr>"
  have "run ?fw [Loop_Iteration, Timer2_Overflow, Loop_Iteration, Loop_Iteration] ?s
      = run ?fw [Timer2_Overflow] ?s"
    using foreground_loop_frame
      [of ?s ?fw "[Loop_Iteration, Timer2_Overflow, Loop_Iteration, Loop_Iteration]"]
    by (simp del: run.simps)
  also have "\<dots> = Inr \<lparr>OCR2A = 124, TCCR2A = 131, TCCR2B = 1, DDRB = 8, TIMSK2 = 1,
                         I_flag = True, i = 0\<rparr>"
    by (simp add: ISR_TIMER2_OVF_def length_SINE_FULL_WAVE_256 SINE_FULL_WAVE_256_last)
  finally show ?thesis .
qed

subsection \<open>Build-time validation\<close>

text \<open>
  C8, as amended. Compiling fails with one of the two \<open>#error\<close> directives exactly
  when the value the preprocessor has for \<open>SAMPLE_COUNT\<close> is not one of 256, 512, 1024
  or the one it has for \<open>PRESCALER\<close> is not one of 1, 8, 32, 64, 128, 256, 1024, and
  there is a firmware, and with it any run-time behaviour, exactly otherwise. For
  constants within the preprocessor's 64-bit range, from \<open>- 2 ^ 63\<close> up to
  \<open>2 ^ 64 - 1\<close>, that value is the constant itself: every such constant outside the
  valid sets is rejected.
\<close>

theorem compile_rejects_invalid:
  "((\<exists>e. compile P N = Inl e) \<longleftrightarrow>
      (cpp_value N \<notin> {256, 512, 1024} \<or> cpp_value P \<notin> {1, 8, 32, 64, 128, 256, 1024}))
   \<and> ((\<exists>fw. compile P N = Inr fw) \<longleftrightarrow>
      (cpp_value N \<in> {256, 512, 1024} \<and> cpp_value P \<in> {1, 8, 32, 64, 128, 256, 1024}))
   \<and> (- (2 ^ 63) \<le> N \<and> N < 2 ^ 64 \<and> - (2 ^ 63) \<le> P \<and> P < 2 ^ 64 \<longrightarrow>
        ((\<exists>e. compile P N = Inl e) \<longleftrightarrow>
           (N \<notin> {256, 512, 1024} \<or> P \<notin> {1, 8, 32, 64, 128, 256, 1024})))"
proof -
  have fails: "(\<exists>e. compile P N = Inl e) \<longleftrightarrow>
      (cpp_value N \<notin> {256, 512, 1024} \<or> cpp_value P \<notin> {1, 8, 32, 64, 128, 256, 1024})"
    unfolding compile_def by (rule build_fails_iff)
  have succeeds: "(\<exists>fw. compile P N = Inr fw) \<longleftrightarrow>
      (cpp_value N \<in> {256, 512, 1024} \<and> cpp_value P \<in> {1, 8, 32, 64, 128, 256, 1024})"
    unfolding compile_def by (rule build_succeeds_iff)
  have small: "(\<exists>e. compile P N = Inl e) \<longleftrightarrow>
      (N \<notin> {256, 512, 1024} \<or> P \<notin> {1, 8, 32, 64, 128, 256, 1024})"
    if range: "- (2 ^ 63) \<le> N \<and> N < 2 ^ 64 \<and> - (2 ^ 63) \<le> P \<and> P < 2 ^ 64"
  proof -
    have n: "cpp_value N = c \<longleftrightarrow> N = c" if "0 \<le> c" "c < 2 ^ 63" for c
      using range that by (intro cpp_value_small) simp_all
    have p: "cpp_value P = c \<longleftrightarrow> P = c" if "0 \<le> c" "c < 2 ^ 63" for c
      using range that by (intro cpp_value_small) simp_all
    show ?thesis unfolding fails by (simp add: n p)
  qed
  from fails succeeds small show ?thesis by blast
qed

theorem compile_rejects_invalid_witness:
  "(\<exists>e. compile 16 256 = Inl e) \<and> (\<exists>e. compile 1 128 = Inl e)
   \<and> (\<exists>e. compile 1 (- 256) = Inl e) \<and> (\<exists>fw. compile 1024 1024 = Inr fw)"
  using compile_rejects_invalid [of 16 256] compile_rejects_invalid [of 1 128]
    compile_rejects_invalid [of 1 "- 256"] compile_rejects_invalid [of 1024 1024]
  by (simp add: cpp_value_def)

text \<open>
  C8, as stated, fails for a constant beyond 64 bits: with
  \<open>#define SAMPLE_COUNT 18446744073709551872\<close>, which is \<open>2 ^ 64 + 256\<close> and not a
  valid sample count, the preprocessor compares 256 and the sketch compiles to the
  256-sample firmware.
\<close>

theorem compile_truncates_counterexample:
  "compile 1 18446744073709551872
     = Inr \<lparr>fw_SAMPLE_COUNT = 256, fw_SINE_FULL_WAVE = SINE_FULL_WAVE_256,
            fw_CS = (False, False, True)\<rparr>
   \<and> (18446744073709551872 :: int) \<notin> {256, 512, 1024}"
  by (simp add: compile_def cpp_value_def build_1_256)

subsection \<open>The tables\<close>

text \<open>
  C4. Each of the three initialisers has exactly as many literals as its
  \<open>SAMPLE_COUNT\<close>, all of them between 0 and 255, and the table selected for a
  supported \<open>SAMPLE_COUNT\<close> has \<open>SAMPLE_COUNT\<close> entries, each between 0 and 255.
\<close>

theorem table_length_and_range:
  "length SINE_FULL_WAVE_256_init = 256 \<and> list_all (\<lambda>v. 0 \<le> v \<and> v \<le> 255) SINE_FULL_WAVE_256_init
   \<and> length SINE_FULL_WAVE_512_init = 512 \<and> list_all (\<lambda>v. 0 \<le> v \<and> v \<le> 255) SINE_FULL_WAVE_512_init
   \<and> length SINE_FULL_WAVE_1024_init = 1024 \<and> list_all (\<lambda>v. 0 \<le> v \<and> v \<le> 255) SINE_FULL_WAVE_1024_init
   \<and> (\<forall>N tbl. SINE_FULL_WAVE N = Inr tbl \<longrightarrow>
         N \<in> {256, 512, 1024} \<and> length tbl = nat N
         \<and> (\<forall>j<nat N. 0 \<le> uint (tbl ! j) \<and> uint (tbl ! j) \<le> 255))"
proof -
  have "N \<in> {256, 512, 1024} \<and> length tbl = nat N
        \<and> (\<forall>j<nat N. 0 \<le> uint (tbl ! j) \<and> uint (tbl ! j) \<le> 255)"
    if sel: "SINE_FULL_WAVE N = Inr tbl" for N tbl
  proof -
    have "uint w \<le> 255" for w :: uint8_t
      using uint_bounded [of w] by simp
    moreover have "N \<in> {256, 512, 1024}"
      using SINE_FULL_WAVE_Inr [OF sel] by auto
    ultimately show ?thesis
      using SINE_FULL_WAVE_length [OF sel] by simp
  qed
  then show ?thesis
    using length_SINE_FULL_WAVE_256_init range_SINE_FULL_WAVE_256_init
      length_SINE_FULL_WAVE_512_init range_SINE_FULL_WAVE_512_init
      length_SINE_FULL_WAVE_1024_init range_SINE_FULL_WAVE_1024_init
    by blast
qed

theorem table_length_and_range_witness:
  "length SINE_FULL_WAVE_512 = 512
   \<and> 0 \<le> uint (SINE_FULL_WAVE_512 ! 511) \<and> uint (SINE_FULL_WAVE_512 ! 511) \<le> 255"
proof -
  have sel: "SINE_FULL_WAVE 512 = Inr SINE_FULL_WAVE_512"
    by (simp add: SINE_FULL_WAVE_def)
  have "(511::nat) < nat 512" by simp
  with table_length_and_range sel show ?thesis
    by (metis nat_numeral)
qed

text \<open>
  C3, as amended. The first and the last entry of the table differ by
  \<open>1024 / SAMPLE_COUNT\<close> register counts: 4 for 256 samples, 2 for 512, 1 for 1024.
  This is never more than the largest step between two neighbouring entries inside
  the same table, so the wrap from the last entry to the first is no spike.
\<close>

theorem wrap_step_bounded:
  assumes "SINE_FULL_WAVE N = Inr tbl"
  shows "\<bar>uint (tbl ! 0) - uint (tbl ! (nat N - 1))\<bar> = 1024 div N
       \<and> \<bar>uint (tbl ! 0) - uint (tbl ! (nat N - 1))\<bar> \<le> largest_step tbl"
  using SINE_FULL_WAVE_Inr [OF assms]
  by (auto simp: SINE_FULL_WAVE_256_first SINE_FULL_WAVE_256_last largest_step_256
      SINE_FULL_WAVE_512_first SINE_FULL_WAVE_512_last largest_step_512
      SINE_FULL_WAVE_1024_first SINE_FULL_WAVE_1024_last largest_step_1024)

theorem wrap_step_bounded_witness:
  "\<bar>uint (SINE_FULL_WAVE_1024 ! 0) - uint (SINE_FULL_WAVE_1024 ! 1023)\<bar> = 1
   \<and> 1 \<le> largest_step SINE_FULL_WAVE_1024"
proof -
  have sel: "SINE_FULL_WAVE 1024 = Inr SINE_FULL_WAVE_1024"
    by (simp add: SINE_FULL_WAVE_def)
  show ?thesis using wrap_step_bounded [OF sel] by simp
qed

text \<open>
  C3, as stated, fails for the 256-entry table: its first entry is 128 and its last
  entry is 124, four register counts apart.
\<close>

theorem wrap_step_256_counterexample:
  "SINE_FULL_WAVE 256 = Inr SINE_FULL_WAVE_256
   \<and> \<not> \<bar>uint (SINE_FULL_WAVE_256 ! 0) - uint (SINE_FULL_WAVE_256 ! (256 - 1))\<bar> \<le> 1"
  by (simp add: SINE_FULL_WAVE_def SINE_FULL_WAVE_256_first SINE_FULL_WAVE_256_last)

subsection \<open>The frequency law\<close>

text \<open>
  C6, as amended. After \<open>setup\<close> the clock-select bits of \<open>TCCR2B\<close> select the
  divider \<open>PRESCALER\<close>, the 8-bit timer overflows every \<open>PRESCALER * 256\<close> CPU
  cycles, and the interrupt routine needs \<open>SAMPLE_COUNT\<close> overflows for one wave, so
  the frequency of the wave is \<open>F_CPU / (PRESCALER * 256 * SAMPLE_COUNT)\<close>. At 16 MHz,
  printed with two decimals, this is 244.14 Hz for prescaler 1 and 256 samples, 15.26 Hz
  for prescaler 8 and 512 samples (exactly 15.2587890625 Hz), and 0.06 Hz for prescaler
  1024 and 1024 samples.
\<close>

theorem frequency_law:
  assumes "build P N = Inr fw" and "clock_select_ok io" and "i s = 0"
  shows "sine_frequency F_CPU 8 io fw (setup_avr io fw s)
           = Some (F_CPU / (of_int P * 256 * of_int N))
       \<and> (F_CPU = 16000000 \<and> P = 1 \<and> N = 256 \<longrightarrow>
            map_option two_decimals (sine_frequency F_CPU 8 io fw (setup_avr io fw s))
              = Some 244.14)
       \<and> (F_CPU = 16000000 \<and> P = 8 \<and> N = 512 \<longrightarrow>
            sine_frequency F_CPU 8 io fw (setup_avr io fw s) = Some 15.2587890625
            \<and> map_option two_decimals (sine_frequency F_CPU 8 io fw (setup_avr io fw s))
              = Some 15.26)
       \<and> (F_CPU = 16000000 \<and> P = 1024 \<and> N = 1024 \<longrightarrow>
            map_option two_decimals (sine_frequency F_CPU 8 io fw (setup_avr io fw s))
              = Some 0.06)"
proof -
  have pos: "0 < N" using build_size [OF assms(1)] by simp
  have P: "0 < P"
    using build_Inr [OF assms(1)] by (auto simp: PRESCALER_select_def split: if_splits)
  have "real (nat P * 2 ^ 8) * real (nat N) = of_int P * 256 * of_int N"
    using pos P by simp
  then have f: "sine_frequency F_CPU 8 io fw (setup_avr io fw s)
           = Some (F_CPU / (of_int P * 256 * of_int N))"
    using sine_frequency_build [OF assms, of F_CPU 8] by simp
  have r1: "two_decimals (16000000 / (of_int 1 * 256 * of_int 256)) = 244.14"
    by (simp add: two_decimals_def round_def)
  have r2: "two_decimals (16000000 / (of_int 8 * 256 * of_int 512)) = 15.26"
    by (simp add: two_decimals_def round_def)
  have r3: "two_decimals (16000000 / (of_int 1024 * 256 * of_int 1024)) = 0.06"
    by (simp add: two_decimals_def round_def)
  have e2: "(16000000 :: real) / (of_int 8 * 256 * of_int 512) = 15.2587890625"
    by simp
  show ?thesis
    unfolding f using r1 r2 r3 e2 by auto
qed

theorem frequency_law_witness:
  "sine_frequency 16000000 8
         \<lparr>COM2A1 = 7, WGM21 = 1, WGM20 = 0, CS22 = 2, CS21 = 1, CS20 = 0, PORTB3 = 3, TOIE2 = 0\<rparr>
         \<lparr>fw_SAMPLE_COUNT = 512, fw_SINE_FULL_WAVE = SINE_FULL_WAVE_512,
          fw_CS = (False, True, False)\<rparr>
         (setup_avr
            \<lparr>COM2A1 = 7, WGM21 = 1, WGM20 = 0, CS22 = 2, CS21 = 1, CS20 = 0, PORTB3 = 3, TOIE2 = 0\<rparr>
            \<lparr>fw_SAMPLE_COUNT = 512, fw_SINE_FULL_WAVE = SINE_FULL_WAVE_512,
          fw_CS = (False, True, False)\<rparr>
            \<lparr>OCR2A = 0, TCCR2A = 0, TCCR2B = 0, DDRB = 0, TIMSK2 = 0, I_flag = True, i = 0\<rparr>)
   = Some 15.2587890625
   \<and> map_option two_decimals
       (sine_frequency 16000000 8
         \<lparr>COM2A1 = 7, WGM21 = 1, WGM20 = 0, CS22 = 2, CS21 = 1, CS20 = 0, PORTB3 = 3, TOIE2 = 0\<rparr>
         \<lparr>fw_SAMPLE_COUNT = 512, fw_SINE_FULL_WAVE = SINE_FULL_WAVE_512,
          fw_CS = (False, True, False)\<rparr>
         (setup_avr
            \<lparr>COM2A1 = 7, WGM21 = 1, WGM20 = 0, CS22 = 2, CS21 = 1, CS20 = 0, PORTB3 = 3, TOIE2 = 0\<rparr>
            \<lparr>fw_SAMPLE_COUNT = 512, fw_SINE_FULL_WAVE = SINE_FULL_WAVE_512,
          fw_CS = (False, True, False)\<rparr>
            \<lparr>OCR2A = 0, TCCR2A = 0, TCCR2B = 0, DDRB = 0, TIMSK2 = 0, I_flag = True, i = 0\<rparr>))
     = Some 15.26"
proof -
  have ok: "clock_select_ok
              \<lparr>COM2A1 = 7, WGM21 = 1, WGM20 = 0, CS22 = 2, CS21 = 1, CS20 = 0, PORTB3 = 3, TOIE2 = 0\<rparr>"
    by (simp add: clock_select_ok_def)
  have z: "i \<lparr>OCR2A = 0, TCCR2A = 0, TCCR2B = 0, DDRB = 0, TIMSK2 = 0, I_flag = True, i = 0\<rparr> = (0 :: uint16_t)"
    by simp
  have given: "(16000000 :: real) = 16000000 \<and> (8 :: int) = 8 \<and> (512 :: int) = 512"
    by simp
  from frequency_law [OF build_8_512 ok z, of 16000000] given show ?thesis
    by blast
qed

text \<open>
  C6, as stated, fails at its second figure: for prescaler 8 and 512 samples the
  frequency is 15.2587890625 Hz, which is 15.26 Hz with two decimals; 15.25 is more
  than half a hundredth away.
\<close>

theorem frequency_8_512_counterexample:
  "sine_frequency 16000000 8
         \<lparr>COM2A1 = 7, WGM21 = 1, WGM20 = 0, CS22 = 2, CS21 = 1, CS20 = 0, PORTB3 = 3, TOIE2 = 0\<rparr>
         \<lparr>fw_SAMPLE_COUNT = 512, fw_SINE_FULL_WAVE = SINE_FULL_WAVE_512,
          fw_CS = (False, True, False)\<rparr>
         (setup_avr
            \<lparr>COM2A1 = 7, WGM21 = 1, WGM20 = 0, CS22 = 2, CS21 = 1, CS20 = 0, PORTB3 = 3, TOIE2 = 0\<rparr>
            \<lparr>fw_SAMPLE_COUNT = 512, fw_SINE_FULL_WAVE = SINE_FULL_WAVE_512,
          fw_CS = (False, True, False)\<rparr>
            \<lparr>OCR2A = 0, TCCR2A = 0, TCCR2B = 0, DDRB = 0, TIMSK2 = 0, I_flag = True, i = 0\<rparr>)
   = Some 15.2587890625
   \<and> two_decimals 15.2587890625 \<noteq> 15.25
   \<and> \<not> \<bar>15.2587890625 - 15.25\<bar> \<le> (0.005 :: real)"
proof -
  have ok: "clock_select_ok
              \<lparr>COM2A1 = 7, WGM21 = 1, WGM20 = 0, CS22 = 2, CS21 = 1, CS20 = 0, PORTB3 = 3, TOIE2 = 0\<rparr>"
    by (simp add: clock_select_ok_def)
  have z: "i \<lparr>OCR2A = 0, TCCR2A = 0, TCCR2B = 0, DDRB = 0, TIMSK2 = 0, I_flag = True, i = 0\<rparr> = (0 :: uint16_t)"
    by simp
  have "sine_frequency 16000000 8
         \<lparr>COM2A1 = 7, WGM21 = 1, WGM20 = 0, CS22 = 2, CS21 = 1, CS20 = 0, PORTB3 = 3, TOIE2 = 0\<rparr>
         \<lparr>fw_SAMPLE_COUNT = 512, fw_SINE_FULL_WAVE = SINE_FULL_WAVE_512,
          fw_CS = (False, True, False)\<rparr>
         (setup_avr
            \<lparr>COM2A1 = 7, WGM21 = 1, WGM20 = 0, CS22 = 2, CS21 = 1, CS20 = 0, PORTB3 = 3, TOIE2 = 0\<rparr>
            \<lparr>fw_SAMPLE_COUNT = 512, fw_SINE_FULL_WAVE = SINE_FULL_WAVE_512,
          fw_CS = (False, True, False)\<rparr>
            \<lparr>OCR2A = 0, TCCR2A = 0, TCCR2B = 0, DDRB = 0, TIMSK2 = 0, I_flag = True, i = 0\<rparr>)
      = Some (16000000 / (real (nat 8 * 2 ^ 8) * real (nat 512)))"
    by (rule sine_frequency_build [OF build_8_512 ok z])
  then show ?thesis
    by (simp add: two_decimals_def round_def)
qed

subsection \<open>The tables are the rounded sine\<close>

text \<open>Half-angle bounds for cosine and sine on \<open>[0, pi]\<close>.\<close>

lemma cos_half_bounds:
  fixes x a b a' b' :: real
  assumes x: "0 \<le> x" "x \<le> pi"
    and ab: "a \<le> cos x" "cos x \<le> b"
    and lo: "0 \<le> a'" "2 * a'\<^sup>2 \<le> 1 + a"
    and hi: "0 \<le> b'" "1 + b \<le> 2 * b'\<^sup>2"
  shows "a' \<le> cos (x / 2) \<and> cos (x / 2) \<le> b'"
proof -
  have dbl: "cos x = 2 * (cos (x / 2))\<^sup>2 - 1"
    using cos_double_cos [of "x / 2"] by simp
  have nonneg: "0 \<le> cos (x / 2)"
    using x pi_ge_zero by (intro cos_ge_zero) simp_all
  have "a'\<^sup>2 \<le> (cos (x / 2))\<^sup>2" using lo(2) ab(1) dbl by simp
  then have l: "a' \<le> cos (x / 2)" using nonneg by (rule power2_le_imp_le)
  have "(cos (x / 2))\<^sup>2 \<le> b'\<^sup>2" using hi(2) ab(2) dbl by simp
  then have u: "cos (x / 2) \<le> b'" using hi(1) by (rule power2_le_imp_le)
  from l u show ?thesis by simp
qed

lemma sin_half_bounds:
  fixes x a b p q :: real
  assumes x: "0 \<le> x" "x \<le> pi"
    and ab: "a \<le> cos x" "cos x \<le> b"
    and lo: "0 \<le> p" "2 * p\<^sup>2 \<le> 1 - b"
    and hi: "0 \<le> q" "1 - a \<le> 2 * q\<^sup>2"
  shows "p \<le> sin (x / 2) \<and> sin (x / 2) \<le> q"
proof -
  have dbl: "cos x = 1 - 2 * (sin (x / 2))\<^sup>2"
    using cos_double_sin [of "x / 2"] by simp
  have nonneg: "0 \<le> sin (x / 2)"
    using x pi_ge_zero by (intro sin_ge_zero) simp_all
  have "p\<^sup>2 \<le> (sin (x / 2))\<^sup>2" using lo(2) ab(2) dbl by simp
  then have l: "p \<le> sin (x / 2)" using nonneg by (rule power2_le_imp_le)
  have "(sin (x / 2))\<^sup>2 \<le> q\<^sup>2" using hi(2) ab(1) dbl by simp
  then have u: "sin (x / 2) \<le> q" using hi(1) by (rule power2_le_imp_le)
  from l u show ?thesis by simp
qed

lemma mul_lo_sound:
  fixes x y :: real
  assumes "of_int xl \<le> x" and "of_int yl \<le> y" and "y \<le> of_int yu" and "0 \<le> yl"
  shows "of_int (mul_lo xl yl yu) \<le> x * y"
proof (cases "0 \<le> xl")
  case True
  have "of_int xl * of_int yl \<le> x * y"
    using assms True by (intro mult_mono) simp_all
  with True show ?thesis by (simp add: mul_lo_def)
next
  case False
  have y0: "0 \<le> y" using assms(2,4) by (meson of_int_0_le_iff order_trans)
  have "of_int xl * of_int yu \<le> of_int xl * y"
    using False assms(3) by (intro mult_left_mono_neg) simp_all
  also have "\<dots> \<le> x * y"
    using assms(1) y0 by (rule mult_right_mono)
  finally show ?thesis using False by (simp add: mul_lo_def)
qed

lemma mul_hi_sound:
  fixes x y :: real
  assumes "x \<le> of_int xu" and "of_int yl \<le> y" and "y \<le> of_int yu" and "0 \<le> yl"
  shows "x * y \<le> of_int (mul_hi xu yl yu)"
proof (cases "0 \<le> xu")
  case True
  have y0: "0 \<le> y" using assms(2,4) by (meson of_int_0_le_iff order_trans)
  have "x * y \<le> of_int xu * y"
    using assms(1) y0 by (rule mult_right_mono)
  also have "\<dots> \<le> of_int xu * of_int yu"
    using True assms(3) by (intro mult_left_mono) simp_all
  finally show ?thesis using True by (simp add: mul_hi_def)
next
  case False
  have y0: "0 \<le> y" using assms(2,4) by (meson of_int_0_le_iff order_trans)
  have "x * y \<le> of_int xu * y"
    using assms(1) y0 by (rule mult_right_mono)
  also have "\<dots> \<le> of_int xu * of_int yl"
    using False assms(2) by (intro mult_left_mono_neg) simp_all
  finally show ?thesis using False by (simp add: mul_hi_def)
qed

lemma scale_down_sound:
  fixes z :: real
  assumes "of_int a \<le> of_int SCALE * (of_int SCALE * z)"
  shows "of_int (scale_down a) \<le> of_int SCALE * z"
proof -
  have pos: "(0::real) < of_int SCALE" by (simp add: SCALE_def)
  have "of_int (scale_down a) = of_int \<lfloor>(of_int a :: real) / of_int SCALE\<rfloor>"
    by (simp add: scale_down_def floor_divide_of_int_eq)
  also have "\<dots> \<le> (of_int a :: real) / of_int SCALE" by (rule of_int_floor_le)
  also have "\<dots> \<le> of_int SCALE * z"
    using assms pos by (simp add: divide_le_eq mult.commute)
  finally show ?thesis .
qed

lemma scale_up_sound:
  fixes z :: real
  assumes "of_int SCALE * (of_int SCALE * z) \<le> of_int a"
  shows "of_int SCALE * z \<le> of_int (scale_up a)"
proof -
  have pos: "(0::real) < of_int SCALE" by (simp add: SCALE_def)
  have "of_int SCALE * z \<le> (of_int a :: real) / of_int SCALE"
    using assms pos by (simp add: le_divide_eq mult.commute)
  also have "\<dots> \<le> of_int \<lceil>(of_int a :: real) / of_int SCALE\<rceil>" by (rule le_of_int_ceiling)
  also have "\<dots> = of_int (scale_up a)"
    by (simp add: scale_up_def ceiling_divide_eq_div)
  finally show ?thesis .
qed


lemma advance_sound:
  assumes b: "base_ok b t" and e: "encloses e x"
  shows "encloses (advance b e) (x + t)"
proof -
  obtain s1l s1u c1l c1u where bdef: "b = (s1l, s1u, c1l, c1u)" by (cases b)
  obtain sl su cl cu where edef: "e = (sl, su, cl, cu)" by (cases e)
  let ?S = "of_int SCALE :: real"
  from b have bt: "of_int s1l \<le> ?S * sin t" "?S * sin t \<le> of_int s1u"
      "of_int c1l \<le> ?S * cos t" "?S * cos t \<le> of_int c1u" "0 \<le> s1l" "0 \<le> c1l"
    by (simp_all add: base_ok_def encloses_def bdef)
  from e have ex: "of_int sl \<le> ?S * sin x" "?S * sin x \<le> of_int su"
      "of_int cl \<le> ?S * cos x" "?S * cos x \<le> of_int cu"
    by (simp_all add: encloses_def edef)
  have sin_eq: "?S * (?S * sin (x + t)) = (?S * sin x) * (?S * cos t) + (?S * cos x) * (?S * sin t)"
    by (simp add: sin_add algebra_simps)
  have cos_eq: "?S * (?S * cos (x + t)) = (?S * cos x) * (?S * cos t) - (?S * sin x) * (?S * sin t)"
    by (simp add: cos_add algebra_simps)
  have sc_lo: "of_int (mul_lo sl c1l c1u) \<le> (?S * sin x) * (?S * cos t)"
    using ex(1) bt(3,4,6) by (rule mul_lo_sound)
  have cs_lo: "of_int (mul_lo cl s1l s1u) \<le> (?S * cos x) * (?S * sin t)"
    using ex(3) bt(1,2,5) by (rule mul_lo_sound)
  have cc_lo: "of_int (mul_lo cl c1l c1u) \<le> (?S * cos x) * (?S * cos t)"
    using ex(3) bt(3,4,6) by (rule mul_lo_sound)
  have ss_lo: "of_int (mul_lo sl s1l s1u) \<le> (?S * sin x) * (?S * sin t)"
    using ex(1) bt(1,2,5) by (rule mul_lo_sound)
  have sc_hi: "(?S * sin x) * (?S * cos t) \<le> of_int (mul_hi su c1l c1u)"
    using ex(2) bt(3,4,6) by (rule mul_hi_sound)
  have cs_hi: "(?S * cos x) * (?S * sin t) \<le> of_int (mul_hi cu s1l s1u)"
    using ex(4) bt(1,2,5) by (rule mul_hi_sound)
  have cc_hi: "(?S * cos x) * (?S * cos t) \<le> of_int (mul_hi cu c1l c1u)"
    using ex(4) bt(3,4,6) by (rule mul_hi_sound)
  have ss_hi: "(?S * sin x) * (?S * sin t) \<le> of_int (mul_hi su s1l s1u)"
    using ex(2) bt(1,2,5) by (rule mul_hi_sound)
  have 1: "of_int (scale_down (mul_lo sl c1l c1u + mul_lo cl s1l s1u)) \<le> ?S * sin (x + t)"
    by (rule scale_down_sound) (use sc_lo cs_lo in \<open>simp add: sin_eq\<close>)
  have 2: "?S * sin (x + t) \<le> of_int (scale_up (mul_hi su c1l c1u + mul_hi cu s1l s1u))"
    by (rule scale_up_sound) (use sc_hi cs_hi in \<open>simp add: sin_eq\<close>)
  have 3: "of_int (scale_down (mul_lo cl c1l c1u - mul_hi su s1l s1u)) \<le> ?S * cos (x + t)"
    by (rule scale_down_sound) (use cc_lo ss_hi in \<open>simp add: cos_eq\<close>)
  have 4: "?S * cos (x + t) \<le> of_int (scale_up (mul_hi cu c1l c1u - mul_lo sl s1l s1u))"
    by (rule scale_up_sound) (use cc_hi ss_lo in \<open>simp add: cos_eq\<close>)
  from 1 2 3 4 show ?thesis
    by (simp add: bdef edef encloses_def)
qed

lemma sample_ok_round:
  assumes e: "encloses e x" and ok: "sample_ok e v"
  shows "round (127.5 + 127.5 * sin x) = v"
proof -
  obtain sl su cl cu where edef: "e = (sl, su, cl, cu)" by (cases e)
  let ?S = "of_int SCALE :: real"
  have pos: "0 < ?S" by (simp add: SCALE_def)
  from e have ex: "of_int sl \<le> ?S * sin x" "?S * sin x \<le> of_int su"
    by (simp_all add: encloses_def edef)
  from ok have "(2 * v - 256) * SCALE \<le> 255 * sl" "255 * su < (2 * v - 254) * SCALE"
    by (simp_all add: edef)
  then have "(of_int ((2 * v - 256) * SCALE) :: real) \<le> of_int (255 * sl)"
      "(of_int (255 * su) :: real) < of_int ((2 * v - 254) * SCALE)"
    by (simp_all only: of_int_le_iff of_int_less_iff)
  then have k: "(2 * of_int v - 256) * ?S \<le> 255 * of_int sl"
      "255 * of_int su < (2 * of_int v - 254) * ?S"
    by simp_all
  have "(2 * of_int v - 256) * ?S \<le> (255 * sin x) * ?S"
    using k(1) ex(1) by (simp add: mult.commute)
  then have lo: "2 * of_int v - 256 \<le> 255 * sin x"
    using pos by (simp only: mult_le_cancel_right_pos)
  have "(255 * sin x) * ?S < (2 * of_int v - 254) * ?S"
    using k(2) ex(2) by (simp add: mult.commute)
  then have hi: "255 * sin x < 2 * of_int v - 254"
    using pos by (simp only: mult_less_cancel_right_pos)
  show ?thesis
    by (rule round_unique) (use lo hi in simp_all)
qed

lemma walk_sound:
  assumes b: "base_ok b t"
  shows "encloses e x \<Longrightarrow> walk b e vs \<Longrightarrow> j < length vs
         \<Longrightarrow> round (127.5 + 127.5 * sin (x + real j * t)) = vs ! j"
proof (induction vs arbitrary: e x j)
  case Nil
  then show ?case by simp
next
  case (Cons v vs)
  from Cons.prems(2) have ok: "sample_ok e v" and rest: "walk b (advance b e) vs"
    by auto
  show ?case
  proof (cases j)
    case 0
    have "round (127.5 + 127.5 * sin x) = v"
      using Cons.prems(1) ok by (rule sample_ok_round)
    with 0 show ?thesis by simp
  next
    case (Suc k)
    have "encloses (advance b e) (x + t)" using b Cons.prems(1) by (rule advance_sound)
    moreover note rest
    moreover have "k < length vs" using Cons.prems(3) Suc by simp
    ultimately have "round (127.5 + 127.5 * sin ((x + t) + real k * t)) = vs ! k"
      by (rule Cons.IH)
    moreover have "(x + t) + real k * t = x + real j * t"
      using Suc by (simp add: algebra_simps)
    ultimately show ?thesis using Suc by simp
  qed
qed


lemma half_angle_step:
  fixes A B A' B' P Q D :: int and x :: real
  assumes D: "0 < D" and x: "0 \<le> x" "x \<le> pi"
    and AB: "of_int A \<le> of_int D * cos x" "of_int D * cos x \<le> of_int B"
    and A': "0 \<le> A'" "2 * A'\<^sup>2 \<le> D * (D + A)"
    and B': "0 \<le> B'" "D * (D + B) \<le> 2 * B'\<^sup>2"
    and P: "0 \<le> P" "2 * P\<^sup>2 \<le> D * (D - B)"
    and Q: "0 \<le> Q" "D * (D - A) \<le> 2 * Q\<^sup>2"
  shows "of_int A' \<le> of_int D * cos (x / 2) \<and> of_int D * cos (x / 2) \<le> of_int B'
       \<and> of_int P \<le> of_int D * sin (x / 2) \<and> of_int D * sin (x / 2) \<le> of_int Q"
proof -
  define d :: real where "d = of_int D"
  have dpos: "0 < d" using D by (simp add: d_def)
  have d2: "0 < d\<^sup>2" using dpos by simp
  have unit: "x / d\<^sup>2 * d = x / d" for x :: real
    using dpos by (simp add: power2_eq_square)
  have ab: "of_int A / d \<le> cos x" "cos x \<le> of_int B / d"
    using AB dpos by (simp_all add: d_def pos_divide_le_eq pos_le_divide_eq mult.commute)
  have "(of_int (2 * A'\<^sup>2) :: real) \<le> of_int (D * (D + A))"
    using A'(2) by (simp only: of_int_le_iff)
  then have "2 * (of_int A')\<^sup>2 / d\<^sup>2 \<le> d * (d + of_int A) / d\<^sup>2"
    using d2 by (intro divide_right_mono) (simp_all add: d_def)
  then have a': "2 * (of_int A' / d)\<^sup>2 \<le> 1 + of_int A / d"
    using dpos by (simp add: power_divide power2_eq_square distrib_left add_divide_distrib)
  have "(of_int (D * (D + B)) :: real) \<le> of_int (2 * B'\<^sup>2)"
    using B'(2) by (simp only: of_int_le_iff)
  then have "d * (d + of_int B) / d\<^sup>2 \<le> 2 * (of_int B')\<^sup>2 / d\<^sup>2"
    using d2 by (intro divide_right_mono) (simp_all add: d_def)
  then have b': "1 + of_int B / d \<le> 2 * (of_int B' / d)\<^sup>2"
    using dpos by (simp add: power_divide power2_eq_square distrib_left add_divide_distrib)
  have "(of_int (2 * P\<^sup>2) :: real) \<le> of_int (D * (D - B))"
    using P(2) by (simp only: of_int_le_iff)
  then have "2 * (of_int P)\<^sup>2 / d\<^sup>2 \<le> d * (d - of_int B) / d\<^sup>2"
    using d2 by (intro divide_right_mono) (simp_all add: d_def)
  then have p: "2 * (of_int P / d)\<^sup>2 \<le> 1 - of_int B / d"
    using dpos by (simp add: power_divide power2_eq_square right_diff_distrib diff_divide_distrib)
  have "(of_int (D * (D - A)) :: real) \<le> of_int (2 * Q\<^sup>2)"
    using Q(2) by (simp only: of_int_le_iff)
  then have "d * (d - of_int A) / d\<^sup>2 \<le> 2 * (of_int Q)\<^sup>2 / d\<^sup>2"
    using d2 by (intro divide_right_mono) (simp_all add: d_def)
  then have q: "1 - of_int A / d \<le> 2 * (of_int Q / d)\<^sup>2"
    using dpos by (simp add: power_divide power2_eq_square right_diff_distrib diff_divide_distrib)
  have nn: "0 \<le> of_int A' / d" "0 \<le> of_int B' / d" "0 \<le> of_int P / d" "0 \<le> of_int Q / d"
    using A'(1) B'(1) P(1) Q(1) dpos by simp_all
  from cos_half_bounds [OF x ab nn(1) a' nn(2) b']
  have c: "of_int A' \<le> d * cos (x / 2)" "d * cos (x / 2) \<le> of_int B'"
    using dpos by (simp_all add: pos_divide_le_eq pos_le_divide_eq mult.commute)
  from sin_half_bounds [OF x ab nn(3) p nn(4) q]
  have s: "of_int P \<le> d * sin (x / 2)" "d * sin (x / 2) \<le> of_int Q"
    using dpos by (simp_all add: pos_divide_le_eq pos_le_divide_eq mult.commute)
  from c s show ?thesis by (simp add: d_def)
qed

text \<open>Halving from \<open>pi / 2\<close> down to \<open>pi / 512\<close>.\<close>

lemma half_angle_1:
  "0 \<le> of_int CHAIN * cos (pi / 2) \<and> of_int CHAIN * cos (pi / 2) \<le> 0"
  by simp

lemma half_angle_2:
  "707106781186547524400844362104 \<le> of_int CHAIN * cos (pi / 4) \<and> of_int CHAIN * cos (pi / 4) \<le> 707106781186547524400844362105
   \<and> 707106781186547524400844362104 \<le> of_int CHAIN * sin (pi / 4) \<and> of_int CHAIN * sin (pi / 4) \<le> 707106781186547524400844362105"
proof -
  have prev: "of_int 0 \<le> of_int CHAIN * cos (pi / 2)"
      "of_int CHAIN * cos (pi / 2) \<le> of_int 0"
    using half_angle_1 by simp_all
  have "of_int 707106781186547524400844362104 \<le> of_int CHAIN * cos (pi / 2 / 2)
      \<and> of_int CHAIN * cos (pi / 2 / 2) \<le> of_int 707106781186547524400844362105
      \<and> of_int 707106781186547524400844362104 \<le> of_int CHAIN * sin (pi / 2 / 2)
      \<and> of_int CHAIN * sin (pi / 2 / 2) \<le> of_int 707106781186547524400844362105"
    by (rule half_angle_step [OF _ _ _ prev]) (simp_all add: CHAIN_def)
  then show ?thesis by simp
qed

lemma half_angle_3:
  "923879532511286756128183189396 \<le> of_int CHAIN * cos (pi / 8) \<and> of_int CHAIN * cos (pi / 8) \<le> 923879532511286756128183189397
   \<and> 382683432365089771728459984030 \<le> of_int CHAIN * sin (pi / 8) \<and> of_int CHAIN * sin (pi / 8) \<le> 382683432365089771728459984031"
proof -
  have prev: "of_int 707106781186547524400844362104 \<le> of_int CHAIN * cos (pi / 4)"
      "of_int CHAIN * cos (pi / 4) \<le> of_int 707106781186547524400844362105"
    using half_angle_2 by simp_all
  have "of_int 923879532511286756128183189396 \<le> of_int CHAIN * cos (pi / 4 / 2)
      \<and> of_int CHAIN * cos (pi / 4 / 2) \<le> of_int 923879532511286756128183189397
      \<and> of_int 382683432365089771728459984030 \<le> of_int CHAIN * sin (pi / 4 / 2)
      \<and> of_int CHAIN * sin (pi / 4 / 2) \<le> of_int 382683432365089771728459984031"
    by (rule half_angle_step [OF _ _ _ prev]) (simp_all add: CHAIN_def)
  then show ?thesis by simp
qed

lemma half_angle_4:
  "980785280403230449126182236134 \<le> of_int CHAIN * cos (pi / 16) \<and> of_int CHAIN * cos (pi / 16) \<le> 980785280403230449126182236135
   \<and> 195090322016128267848284868476 \<le> of_int CHAIN * sin (pi / 16) \<and> of_int CHAIN * sin (pi / 16) \<le> 195090322016128267848284868479"
proof -
  have prev: "of_int 923879532511286756128183189396 \<le> of_int CHAIN * cos (pi / 8)"
      "of_int CHAIN * cos (pi / 8) \<le> of_int 923879532511286756128183189397"
    using half_angle_3 by simp_all
  have "of_int 980785280403230449126182236134 \<le> of_int CHAIN * cos (pi / 8 / 2)
      \<and> of_int CHAIN * cos (pi / 8 / 2) \<le> of_int 980785280403230449126182236135
      \<and> of_int 195090322016128267848284868476 \<le> of_int CHAIN * sin (pi / 8 / 2)
      \<and> of_int CHAIN * sin (pi / 8 / 2) \<le> of_int 195090322016128267848284868479"
    by (rule half_angle_step [OF _ _ _ prev]) (simp_all add: CHAIN_def)
  then show ?thesis by simp
qed

lemma half_angle_5:
  "995184726672196886244836953109 \<le> of_int CHAIN * cos (pi / 32) \<and> of_int CHAIN * cos (pi / 32) \<le> 995184726672196886244836953110
   \<and> 98017140329560601994195563886 \<le> of_int CHAIN * sin (pi / 32) \<and> of_int CHAIN * sin (pi / 32) \<le> 98017140329560601994195563890"
proof -
  have prev: "of_int 980785280403230449126182236134 \<le> of_int CHAIN * cos (pi / 16)"
      "of_int CHAIN * cos (pi / 16) \<le> of_int 980785280403230449126182236135"
    using half_angle_4 by simp_all
  have "of_int 995184726672196886244836953109 \<le> of_int CHAIN * cos (pi / 16 / 2)
      \<and> of_int CHAIN * cos (pi / 16 / 2) \<le> of_int 995184726672196886244836953110
      \<and> of_int 98017140329560601994195563886 \<le> of_int CHAIN * sin (pi / 16 / 2)
      \<and> of_int CHAIN * sin (pi / 16 / 2) \<le> of_int 98017140329560601994195563890"
    by (rule half_angle_step [OF _ _ _ prev]) (simp_all add: CHAIN_def)
  then show ?thesis by simp
qed

lemma half_angle_6:
  "998795456205172392714771604758 \<le> of_int CHAIN * cos (pi / 64) \<and> of_int CHAIN * cos (pi / 64) \<le> 998795456205172392714771604760
   \<and> 49067674327418014254954976940 \<le> of_int CHAIN * sin (pi / 64) \<and> of_int CHAIN * sin (pi / 64) \<le> 49067674327418014254954976946"
proof -
  have prev: "of_int 995184726672196886244836953109 \<le> of_int CHAIN * cos (pi / 32)"
      "of_int CHAIN * cos (pi / 32) \<le> of_int 995184726672196886244836953110"
    using half_angle_5 by simp_all
  have "of_int 998795456205172392714771604758 \<le> of_int CHAIN * cos (pi / 32 / 2)
      \<and> of_int CHAIN * cos (pi / 32 / 2) \<le> of_int 998795456205172392714771604760
      \<and> of_int 49067674327418014254954976940 \<le> of_int CHAIN * sin (pi / 32 / 2)
      \<and> of_int CHAIN * sin (pi / 32 / 2) \<le> of_int 49067674327418014254954976946"
    by (rule half_angle_step [OF _ _ _ prev]) (simp_all add: CHAIN_def)
  then show ?thesis by simp
qed

lemma half_angle_7:
  "999698818696204220115765649665 \<le> of_int CHAIN * cos (pi / 128) \<and> of_int CHAIN * cos (pi / 128) \<le> 999698818696204220115765649667
   \<and> 24541228522912288031734529450 \<le> of_int CHAIN * sin (pi / 128) \<and> of_int CHAIN * sin (pi / 128) \<le> 24541228522912288031734529471"
proof -
  have prev: "of_int 998795456205172392714771604758 \<le> of_int CHAIN * cos (pi / 64)"
      "of_int CHAIN * cos (pi / 64) \<le> of_int 998795456205172392714771604760"
    using half_angle_6 by simp_all
  have "of_int 999698818696204220115765649665 \<le> of_int CHAIN * cos (pi / 64 / 2)
      \<and> of_int CHAIN * cos (pi / 64 / 2) \<le> of_int 999698818696204220115765649667
      \<and> of_int 24541228522912288031734529450 \<le> of_int CHAIN * sin (pi / 64 / 2)
      \<and> of_int CHAIN * sin (pi / 64 / 2) \<le> of_int 24541228522912288031734529471"
    by (rule half_angle_step [OF _ _ _ prev]) (simp_all add: CHAIN_def)
  then show ?thesis by simp
qed

lemma half_angle_8:
  "999924701839144540921646491196 \<le> of_int CHAIN * cos (pi / 256) \<and> of_int CHAIN * cos (pi / 256) \<le> 999924701839144540921646491197
   \<and> 12271538285719926079408261934 \<le> of_int CHAIN * sin (pi / 256) \<and> of_int CHAIN * sin (pi / 256) \<le> 12271538285719926079408261975"
proof -
  have prev: "of_int 999698818696204220115765649665 \<le> of_int CHAIN * cos (pi / 128)"
      "of_int CHAIN * cos (pi / 128) \<le> of_int 999698818696204220115765649667"
    using half_angle_7 by simp_all
  have "of_int 999924701839144540921646491196 \<le> of_int CHAIN * cos (pi / 128 / 2)
      \<and> of_int CHAIN * cos (pi / 128 / 2) \<le> of_int 999924701839144540921646491197
      \<and> of_int 12271538285719926079408261934 \<le> of_int CHAIN * sin (pi / 128 / 2)
      \<and> of_int CHAIN * sin (pi / 128 / 2) \<le> of_int 12271538285719926079408261975"
    by (rule half_angle_step [OF _ _ _ prev]) (simp_all add: CHAIN_def)
  then show ?thesis by simp
qed

lemma half_angle_9:
  "999981175282601142656990437728 \<le> of_int CHAIN * cos (pi / 512) \<and> of_int CHAIN * cos (pi / 512) \<le> 999981175282601142656990437729
   \<and> 6135884649154475359640234565 \<le> of_int CHAIN * sin (pi / 512) \<and> of_int CHAIN * sin (pi / 512) \<le> 6135884649154475359640234606"
proof -
  have prev: "of_int 999924701839144540921646491196 \<le> of_int CHAIN * cos (pi / 256)"
      "of_int CHAIN * cos (pi / 256) \<le> of_int 999924701839144540921646491197"
    using half_angle_8 by simp_all
  have "of_int 999981175282601142656990437728 \<le> of_int CHAIN * cos (pi / 256 / 2)
      \<and> of_int CHAIN * cos (pi / 256 / 2) \<le> of_int 999981175282601142656990437729
      \<and> of_int 6135884649154475359640234565 \<le> of_int CHAIN * sin (pi / 256 / 2)
      \<and> of_int CHAIN * sin (pi / 256 / 2) \<le> of_int 6135884649154475359640234606"
    by (rule half_angle_step [OF _ _ _ prev]) (simp_all add: CHAIN_def)
  then show ?thesis by simp
qed


lemma rescale_lo:
  fixes y :: real
  assumes "0 < D" and "0 \<le> S" and "of_int P \<le> of_int D * y" and "l * D \<le> S * P"
  shows "of_int l \<le> of_int S * y"
proof -
  have "(of_int (l * D) :: real) \<le> of_int (S * P)"
    using assms(4) by (simp only: of_int_le_iff)
  then have "of_int l * of_int D \<le> of_int S * (of_int P :: real)" by simp
  also have "\<dots> \<le> of_int S * (of_int D * y)"
    using assms(2,3) by (intro mult_left_mono) simp_all
  finally have "of_int l * (of_int D :: real) \<le> (of_int S * y) * of_int D"
    by (simp add: mult.assoc mult.left_commute mult.commute)
  then show ?thesis using assms(1) by (simp only: mult_le_cancel_right_pos of_int_0_less_iff)
qed

lemma rescale_hi:
  fixes y :: real
  assumes "0 < D" and "0 \<le> S" and "of_int D * y \<le> of_int Q" and "S * Q \<le> u * D"
  shows "of_int S * y \<le> of_int u"
proof -
  have "of_int S * (of_int D * y) \<le> of_int S * (of_int Q :: real)"
    using assms(2,3) by (intro mult_left_mono) simp_all
  also have "\<dots> = of_int (S * Q)" by simp
  also have "\<dots> \<le> of_int (u * D)"
    using assms(4) by (simp only: of_int_le_iff)
  finally have "(of_int S * y) * of_int D \<le> of_int u * (of_int D :: real)"
    by (simp add: mult.assoc mult.left_commute mult.commute)
  then show ?thesis using assms(1) by (simp only: mult_le_cancel_right_pos of_int_0_less_iff)
qed

lemma base_256: "base_ok step_256 (pi / 128)"
proof -
  note h = half_angle_7
  have "of_int 105403773 \<le> of_int SCALE * sin (pi / 128)"
    by (rule rescale_lo [where D = CHAIN and P = 24541228522912288031734529450])
      (use h in \<open>simp_all add: CHAIN_def SCALE_def\<close>)
  moreover have "of_int SCALE * sin (pi / 128) \<le> of_int 105403774"
    by (rule rescale_hi [where D = CHAIN and Q = 24541228522912288031734529471])
      (use h in \<open>simp_all add: CHAIN_def SCALE_def\<close>)
  moreover have "of_int 4293673732 \<le> of_int SCALE * cos (pi / 128)"
    by (rule rescale_lo [where D = CHAIN and P = 999698818696204220115765649665])
      (use h in \<open>simp_all add: CHAIN_def SCALE_def\<close>)
  moreover have "of_int SCALE * cos (pi / 128) \<le> of_int 4293673733"
    by (rule rescale_hi [where D = CHAIN and Q = 999698818696204220115765649667])
      (use h in \<open>simp_all add: CHAIN_def SCALE_def\<close>)
  ultimately show ?thesis by (simp add: base_ok_def encloses_def step_256_def)
qed

lemma base_512: "base_ok step_512 (pi / 256)"
proof -
  note h = half_angle_8
  have "of_int 52705855 \<le> of_int SCALE * sin (pi / 256)"
    by (rule rescale_lo [where D = CHAIN and P = 12271538285719926079408261934])
      (use h in \<open>simp_all add: CHAIN_def SCALE_def\<close>)
  moreover have "of_int SCALE * sin (pi / 256) \<le> of_int 52705856"
    by (rule rescale_hi [where D = CHAIN and Q = 12271538285719926079408261975])
      (use h in \<open>simp_all add: CHAIN_def SCALE_def\<close>)
  moreover have "of_int 4294643892 \<le> of_int SCALE * cos (pi / 256)"
    by (rule rescale_lo [where D = CHAIN and P = 999924701839144540921646491196])
      (use h in \<open>simp_all add: CHAIN_def SCALE_def\<close>)
  moreover have "of_int SCALE * cos (pi / 256) \<le> of_int 4294643893"
    by (rule rescale_hi [where D = CHAIN and Q = 999924701839144540921646491197])
      (use h in \<open>simp_all add: CHAIN_def SCALE_def\<close>)
  ultimately show ?thesis by (simp add: base_ok_def encloses_def step_512_def)
qed

lemma base_1024: "base_ok step_1024 (pi / 512)"
proof -
  note h = half_angle_9
  have "of_int 26353423 \<le> of_int SCALE * sin (pi / 512)"
    by (rule rescale_lo [where D = CHAIN and P = 6135884649154475359640234565])
      (use h in \<open>simp_all add: CHAIN_def SCALE_def\<close>)
  moreover have "of_int SCALE * sin (pi / 512) \<le> of_int 26353424"
    by (rule rescale_hi [where D = CHAIN and Q = 6135884649154475359640234606])
      (use h in \<open>simp_all add: CHAIN_def SCALE_def\<close>)
  moreover have "of_int 4294886444 \<le> of_int SCALE * cos (pi / 512)"
    by (rule rescale_lo [where D = CHAIN and P = 999981175282601142656990437728])
      (use h in \<open>simp_all add: CHAIN_def SCALE_def\<close>)
  moreover have "of_int SCALE * cos (pi / 512) \<le> of_int 4294886445"
    by (rule rescale_hi [where D = CHAIN and Q = 999981175282601142656990437729])
      (use h in \<open>simp_all add: CHAIN_def SCALE_def\<close>)
  ultimately show ?thesis by (simp add: base_ok_def encloses_def step_1024_def)
qed

lemma table_from_walks:
  fixes init :: "int list" and h :: nat
  assumes b: "base_ok b (pi / real h)" and h: "0 < h" and len: "length init = 2 * h"
    and first: "walk b (0, 0, SCALE, SCALE) (take h init)"
    and second: "walk b (0, 0, - SCALE, - SCALE) (drop h init)"
    and j: "j < 2 * h"
  shows "init ! j = round (127.5 + 127.5 * sin (2 * pi * real j / real (2 * h)))"
proof (cases "j < h")
  case True
  have e: "encloses (0, 0, SCALE, SCALE) 0" by (simp add: encloses_def)
  have "j < length (take h init)" using True len by simp
  from walk_sound [OF b e first this]
  have w: "round (127.5 + 127.5 * sin (0 + real j * (pi / real h))) = take h init ! j" .
  have ang: "0 + real j * (pi / real h) = 2 * pi * real j / real (2 * h)"
    using h by simp
  have "take h init ! j = init ! j" using True by simp
  with w show ?thesis unfolding ang by simp
next
  case False
  have e: "encloses (0, 0, - SCALE, - SCALE) pi" by (simp add: encloses_def)
  have k: "j - h < length (drop h init)" using False j len by simp
  from walk_sound [OF b e second this]
  have w: "round (127.5 + 127.5 * sin (pi + real (j - h) * (pi / real h)))
         = drop h init ! (j - h)" .
  have ang: "pi + real (j - h) * (pi / real h) = 2 * pi * real j / real (2 * h)"
    using h False by (simp add: field_simps)
  have "drop h init ! (j - h) = init ! j"
    using False len by simp
  with w show ?thesis unfolding ang by simp
qed

text \<open>The walks over the three tables, one half wave each.\<close>

lemma walk_256_first:
  "walk step_256 (0, 0, SCALE, SCALE) (take 128 SINE_FULL_WAVE_256_init)"
  by code_simp

lemma walk_256_second:
  "walk step_256 (0, 0, - SCALE, - SCALE) (drop 128 SINE_FULL_WAVE_256_init)"
  by code_simp

lemma walk_512_first:
  "walk step_512 (0, 0, SCALE, SCALE) (take 256 SINE_FULL_WAVE_512_init)"
  by code_simp

lemma walk_512_second:
  "walk step_512 (0, 0, - SCALE, - SCALE) (drop 256 SINE_FULL_WAVE_512_init)"
  by code_simp

lemma walk_1024_first:
  "walk step_1024 (0, 0, SCALE, SCALE) (take 512 SINE_FULL_WAVE_1024_init)"
  by code_simp

lemma walk_1024_second:
  "walk step_1024 (0, 0, - SCALE, - SCALE) (drop 512 SINE_FULL_WAVE_1024_init)"
  by code_simp

lemma rounded_sine_256:
  assumes "j < 256"
  shows "SINE_FULL_WAVE_256_init ! j = round (127.5 + 127.5 * sin (2 * pi * real j / 256))"
proof -
  have b: "base_ok step_256 (pi / real 128)" using base_256 by simp
  have len: "length SINE_FULL_WAVE_256_init = 2 * 128"
    by (simp add: length_SINE_FULL_WAVE_256_init)
  have j: "j < 2 * 128" using assms by simp
  from table_from_walks [OF b _ len walk_256_first walk_256_second j]
  show ?thesis by simp
qed

lemma rounded_sine_512:
  assumes "j < 512"
  shows "SINE_FULL_WAVE_512_init ! j = round (127.5 + 127.5 * sin (2 * pi * real j / 512))"
proof -
  have b: "base_ok step_512 (pi / real 256)" using base_512 by simp
  have len: "length SINE_FULL_WAVE_512_init = 2 * 256"
    by (simp add: length_SINE_FULL_WAVE_512_init)
  have j: "j < 2 * 256" using assms by simp
  from table_from_walks [OF b _ len walk_512_first walk_512_second j]
  show ?thesis by simp
qed

lemma rounded_sine_1024:
  assumes "j < 1024"
  shows "SINE_FULL_WAVE_1024_init ! j = round (127.5 + 127.5 * sin (2 * pi * real j / 1024))"
proof -
  have b: "base_ok step_1024 (pi / real 512)" using base_1024 by simp
  have len: "length SINE_FULL_WAVE_1024_init = 2 * 512"
    by (simp add: length_SINE_FULL_WAVE_1024_init)
  have j: "j < 2 * 512" using assms by simp
  from table_from_walks [OF b _ len walk_1024_first walk_1024_second j]
  show ?thesis by simp
qed

lemma uint_table_entry:
  assumes "list_all (\<lambda>v. 0 \<le> v \<and> v \<le> 255) init" and "j < length init"
  shows "uint (map word_of_int init ! j :: uint8_t) = init ! j"
proof -
  have "0 \<le> init ! j \<and> init ! j \<le> 255"
    using assms by (simp add: list_all_length)
  then show ?thesis using assms(2) by (simp add: uint_word_of_int_u8)
qed

text \<open>
  C5. For each supported \<open>SAMPLE_COUNT\<close> and every index \<open>j\<close> below it, the table
  entry is \<open>127.5 + 127.5 * sin (2 * pi * j / SAMPLE_COUNT)\<close> rounded to the nearest
  integer (halves rounded up): one full sine cycle, scaled and offset into 0..255.
\<close>

theorem table_is_rounded_sine:
  assumes "SINE_FULL_WAVE N = Inr tbl" and "j < nat N"
  shows "uint (tbl ! j) = round (127.5 + 127.5 * sin (2 * pi * real j / real_of_int N))"
proof -
  consider "N = 256" "tbl = SINE_FULL_WAVE_256" | "N = 512" "tbl = SINE_FULL_WAVE_512"
    | "N = 1024" "tbl = SINE_FULL_WAVE_1024"
    using SINE_FULL_WAVE_Inr [OF assms(1)] by blast
  then show ?thesis
  proof cases
    case 1
    have j: "j < 256" using assms(2) 1(1) by simp
    have "uint (tbl ! j) = SINE_FULL_WAVE_256_init ! j"
      unfolding 1(2) SINE_FULL_WAVE_256_def
      using range_SINE_FULL_WAVE_256_init j
      by (intro uint_table_entry) (simp_all add: length_SINE_FULL_WAVE_256_init)
    then show ?thesis using rounded_sine_256 [OF j] 1(1) by simp
  next
    case 2
    have j: "j < 512" using assms(2) 2(1) by simp
    have "uint (tbl ! j) = SINE_FULL_WAVE_512_init ! j"
      unfolding 2(2) SINE_FULL_WAVE_512_def
      using range_SINE_FULL_WAVE_512_init j
      by (intro uint_table_entry) (simp_all add: length_SINE_FULL_WAVE_512_init)
    then show ?thesis using rounded_sine_512 [OF j] 2(1) by simp
  next
    case 3
    have j: "j < 1024" using assms(2) 3(1) by simp
    have "uint (tbl ! j) = SINE_FULL_WAVE_1024_init ! j"
      unfolding 3(2) SINE_FULL_WAVE_1024_def
      using range_SINE_FULL_WAVE_1024_init j
      by (intro uint_table_entry) (simp_all add: length_SINE_FULL_WAVE_1024_init)
    then show ?thesis using rounded_sine_1024 [OF j] 3(1) by simp
  qed
qed

theorem table_is_rounded_sine_witness:
  "round (127.5 + 127.5 * sin (2 * pi * real 255 / real_of_int 256)) = 124"
proof -
  have sel: "SINE_FULL_WAVE 256 = Inr SINE_FULL_WAVE_256"
    by (simp add: SINE_FULL_WAVE_def)
  have j: "(255::nat) < nat 256" by simp
  from table_is_rounded_sine [OF sel j] show ?thesis
    by (simp add: SINE_FULL_WAVE_256_last)
qed

end
